theory Spec2Isabelle
  imports Main "HOL-Library.Word" "HOL-Library.Char_ord"
begin

unbundle bit_operations_syntax

section \<open>JavaScript strings and numbers\<close>

text \<open>
  A JavaScript string is a sequence of UTF-16 code units and \<open>length\<close> counts code units.
  The development models a string as a \<^typ>\<open>string\<close>, one \<^typ>\<open>char\<close> per code unit, which
  covers the code units U+0000 to U+00FF. Every pattern, signature and extension the
  sources compare against is ASCII.
\<close>

text \<open>\<open>Number.prototype.toString(radix)\<close> on a non-negative integer: the digits
  \<open>0-9a-z\<close>, most significant first. A template literal formats an integer with radix 10.
  The sources use the radices 10 and 36 only.\<close>

definition digit_char :: "nat \<Rightarrow> char" where
  "digit_char d = ''0123456789abcdefghijklmnopqrstuvwxyz'' ! d"

function toString_radix :: "nat \<Rightarrow> nat \<Rightarrow> string" where
  "toString_radix b n =
     (if b < 2 \<or> n < b then [digit_char n]
      else toString_radix b (n div b) @ [digit_char (n mod b)])"
  by pat_completeness auto
termination
  by (relation "measure (\<lambda>(b, n). n)") auto

declare toString_radix.simps [simp del]

definition toString10 :: "nat \<Rightarrow> string" where
  "toString10 n = toString_radix 10 n"

definition toString36 :: "nat \<Rightarrow> string" where
  "toString36 n = toString_radix 36 n"

text \<open>\<open>s.slice(0, k)\<close> and \<open>s.slice(-k)\<close> for a non-negative \<open>k\<close>.\<close>

definition slice_to :: "nat \<Rightarrow> 'a list \<Rightarrow> 'a list" where
  "slice_to k s = take k s"

definition slice_last :: "nat \<Rightarrow> 'a list \<Rightarrow> 'a list" where
  "slice_last k s = drop (length s - k) s"

text \<open>\<open>String.prototype.toLowerCase\<close> on the code units U+0000 to U+00FF: the ASCII
  capitals and the Latin-1 capitals U+00C0 to U+00DE (U+00D7, the multiplication sign,
  apart) move up by 32.\<close>

definition toLowerCase_char :: "char \<Rightarrow> char" where
  "toLowerCase_char c =
     (let n = of_char c :: nat in
      if (65 \<le> n \<and> n \<le> 90) \<or> (192 \<le> n \<and> n \<le> 222 \<and> n \<noteq> 215)
      then char_of (n + 32) else c)"

definition toLowerCase :: "string \<Rightarrow> string" where
  "toLowerCase s = map toLowerCase_char s"

text \<open>\<open>startsWith\<close>, \<open>endsWith\<close> and \<open>includes\<close> of \<open>String.prototype\<close>.\<close>

definition startsWith :: "string \<Rightarrow> string \<Rightarrow> bool" where
  "startsWith s t = (take (length t) s = t)"

definition endsWith :: "string \<Rightarrow> string \<Rightarrow> bool" where
  "endsWith s t = (length t \<le> length s \<and> drop (length s - length t) s = t)"

primrec includes_str :: "string \<Rightarrow> string \<Rightarrow> bool" where
  "includes_str [] t = (t = [])"
| "includes_str (c # cs) t = (startsWith (c # cs) t \<or> includes_str cs t)"

text \<open>The 32-bit integer operators. \<open>ToInt32\<close> reads a number modulo \<open>2^32\<close> as a two's
  complement value; \<open>x << k\<close> and \<open>x & y\<close> work on the \<open>ToInt32\<close> of their operands and
  return one, while \<open>+\<close> and \<open>-\<close> are exact on integers of this size.\<close>

definition shl32 :: "int \<Rightarrow> nat \<Rightarrow> int" where
  "shl32 x k = sint (push_bit (k mod 32) (word_of_int x :: 32 word))"

definition and32 :: "int \<Rightarrow> int \<Rightarrow> int" where
  "and32 x y = sint ((word_of_int x :: 32 word) AND word_of_int y)"

text \<open>\<open>String.prototype.trim\<close> removes white space and line terminators from both ends:
  among the code units U+0000 to U+00FF these are U+0009 to U+000D, the space and the
  no-break space.\<close>

definition isWhiteSpace :: "char \<Rightarrow> bool" where
  "isWhiteSpace c =
     (c \<in> set [CHR 0x09, CHR 0x0A, CHR 0x0B, CHR 0x0C, CHR 0x0D, CHR 0x20, CHR 0xA0])"

definition trim :: "string \<Rightarrow> string" where
  "trim s = rev (dropWhile isWhiteSpace (rev (dropWhile isWhiteSpace s)))"

section \<open>Regular expressions\<close>

text \<open>
  The patterns of the sources are written in the syntax below and run by a backtracking
  matcher that follows the pattern semantics of ECMAScript: a matcher maps a state to the
  states it can end in, listed in the order in which the backtracking search tries them,
  so that the head of the list is the match the search finds. A state is the code unit
  before the current position, if any, and the rest of the input.
\<close>

datatype citem = Ch char | Rng char char | WhiteSpaceCls

datatype regex =
    Cls bool "citem list"
  | Seq regex regex
  | Alt regex regex
  | Star regex
  | Opt regex
  | Bol
  | Eol
  | WordB
  | Eps

type_synonym mstate = "char option \<times> string"

text \<open>With the flag \<open>i\<close> two code units match when their canonical forms, their upper
  case, are equal. A range then holds a code unit when it holds the unit itself or its
  variant of the other case.\<close>

definition canonicalize :: "char \<Rightarrow> char" where
  "canonicalize c =
     (let n = of_char c :: nat in
      if (97 \<le> n \<and> n \<le> 122) \<or> (224 \<le> n \<and> n \<le> 254 \<and> n \<noteq> 247)
      then char_of (n - 32) else c)"

definition in_range :: "char \<Rightarrow> char \<Rightarrow> char \<Rightarrow> bool" where
  "in_range lo hi c = (lo \<le> c \<and> c \<le> hi)"

fun item_matches :: "bool \<Rightarrow> citem \<Rightarrow> char \<Rightarrow> bool" where
  "item_matches ic (Ch d) c = (if ic then canonicalize c = canonicalize d else c = d)"
| "item_matches ic (Rng lo hi) c =
     (in_range lo hi c \<or>
      (ic \<and> (in_range lo hi (toLowerCase_char c) \<or> in_range lo hi (canonicalize c))))"
| "item_matches ic WhiteSpaceCls c = isWhiteSpace c"

text \<open>\<open>\b\<close> holds between a word character \<open>[A-Za-z0-9_]\<close> and a code unit that is none,
  the ends of the input counting as none.\<close>

definition isWordChar :: "char \<Rightarrow> bool" where
  "isWordChar c =
     (in_range CHR ''a'' CHR ''z'' c \<or> in_range CHR ''A'' CHR ''Z'' c \<or>
      in_range CHR ''0'' CHR ''9'' c \<or> c = CHR ''_'')"

definition at_word_boundary :: "mstate \<Rightarrow> bool" where
  "at_word_boundary st =
     ((case fst st of None \<Rightarrow> False | Some c \<Rightarrow> isWordChar c) \<noteq>
      (case snd st of [] \<Rightarrow> False | c # cs \<Rightarrow> isWordChar c))"

text \<open>A greedy repetition first tries one more round, and the rounds after it, and last
  stops where it is; a round that consumes nothing is dropped. The number of rounds is at
  most the length of the rest of the input, which bounds the recursion.\<close>

definition progress :: "mstate \<Rightarrow> mstate \<Rightarrow> bool" where
  "progress st st' = (length (snd st') < length (snd st))"

fun star_iter :: "(mstate \<Rightarrow> mstate list) \<Rightarrow> nat \<Rightarrow> mstate \<Rightarrow> mstate list" where
  "star_iter f 0 st = [st]"
| "star_iter f (Suc n) st =
     concat (map (\<lambda>st'. if progress st st' then star_iter f n st' else []) (f st)) @ [st]"

primrec rmatch :: "bool \<Rightarrow> regex \<Rightarrow> mstate \<Rightarrow> mstate list" where
  "rmatch ic (Cls neg items) st =
     (case snd st of
        [] \<Rightarrow> []
      | c # cs \<Rightarrow> if list_ex (\<lambda>i. item_matches ic i c) items \<noteq> neg then [(Some c, cs)] else [])"
| "rmatch ic (Seq r1 r2) st = concat (map (rmatch ic r2) (rmatch ic r1 st))"
| "rmatch ic (Alt r1 r2) st = rmatch ic r1 st @ rmatch ic r2 st"
| "rmatch ic (Star r) st = star_iter (rmatch ic r) (length (snd st)) st"
| "rmatch ic (Opt r) st = filter (progress st) (rmatch ic r st) @ [st]"
| "rmatch ic Bol st = (if fst st = None then [st] else [])"
| "rmatch ic Eol st = (if snd st = [] then [st] else [])"
| "rmatch ic WordB st = (if at_word_boundary st then [st] else [])"
| "rmatch ic Eps st = [st]"

text \<open>The match of a sequence of factors, with the states between the factors: the
  capture groups of a pattern are read off these.\<close>

fun rmatch_path :: "bool \<Rightarrow> regex list \<Rightarrow> mstate \<Rightarrow> mstate list list" where
  "rmatch_path ic [] st = [[st]]"
| "rmatch_path ic (r # rs) st =
     concat (map (\<lambda>st'. map ((#) st) (rmatch_path ic rs st')) (rmatch ic r st))"

text \<open>Notation of patterns: a literal code unit, a literal string, \<open>r+\<close>, \<open>r{2,}\<close> and a
  sequence of factors.\<close>

definition lit :: "char \<Rightarrow> regex" where
  "lit c = Cls False [Ch c]"

fun seqs :: "regex list \<Rightarrow> regex" where
  "seqs [] = Eps"
| "seqs [r] = r"
| "seqs (r # rs) = Seq r (seqs rs)"

definition str :: "string \<Rightarrow> regex" where
  "str s = seqs (map lit s)"

definition Plus :: "regex \<Rightarrow> regex" where
  "Plus r = Seq r (Star r)"

definition AtLeast2 :: "regex \<Rightarrow> regex" where
  "AtLeast2 r = Seq r (Seq r (Star r))"

text \<open>The search of \<open>RegExp.prototype.exec\<close>: the first position, from the current one on,
  at which the matcher succeeds, with the input skipped before it and the text matched.\<close>

fun search_with :: "(mstate \<Rightarrow> 'a list) \<Rightarrow> char option \<Rightarrow> string \<Rightarrow> (string \<times> 'a) option" where
  "search_with m p [] = (case m (p, []) of [] \<Rightarrow> None | x # xs \<Rightarrow> Some ([], x))"
| "search_with m p (c # cs) =
     (case m (p, c # cs) of
        x # xs \<Rightarrow> Some ([], x)
      | [] \<Rightarrow> (case search_with m (Some c) cs of
                 None \<Rightarrow> None
               | Some (g, x) \<Rightarrow> Some (c # g, x)))"

definition regex_test :: "bool \<Rightarrow> regex \<Rightarrow> string \<Rightarrow> bool" where
  "regex_test ic r s = (search_with (rmatch ic r) None s \<noteq> None)"

fun alts :: "regex list \<Rightarrow> regex" where
  "alts [] = Eps"
| "alts [r] = r"
| "alts (r # rs) = Alt r (alts rs)"

definition exec_from :: "bool \<Rightarrow> regex \<Rightarrow> mstate \<Rightarrow> (string \<times> string \<times> mstate) option" where
  "exec_from ic r st =
     (case search_with (rmatch ic r) (fst st) (snd st) of
        None \<Rightarrow> None
      | Some (g, st') \<Rightarrow>
          Some (g, take (length (snd st) - length g - length (snd st')) (drop (length g) (snd st)),
                st'))"

text \<open>A matcher only moves forward: every state it ends in holds a suffix of the input it
  started on. The search therefore splits the input into the part skipped, the match and
  the rest.\<close>

lemma star_iter_suffix:
  assumes "\<And>st st'. st' \<in> set (f st) \<Longrightarrow> \<exists>m. snd st = m @ snd st'"
  shows "st' \<in> set (star_iter f n st) \<Longrightarrow> \<exists>m. snd st = m @ snd st'"
proof (induction n arbitrary: st)
  case 0
  then show ?case by simp
next
  case (Suc n)
  from Suc.prems consider "st' = st"
    | st1 where "st1 \<in> set (f st)" "st' \<in> set (star_iter f n st1)"
    by (auto split: if_splits)
  then show ?case
  proof cases
    case 1
    then show ?thesis by simp
  next
    case 2
    from assms [OF 2(1)] obtain m1 where "snd st = m1 @ snd st1" by blast
    moreover from Suc.IH [OF 2(2)] obtain m2 where "snd st1 = m2 @ snd st'" by blast
    ultimately have "snd st = (m1 @ m2) @ snd st'" by simp
    then show ?thesis by blast
  qed
qed

lemma rmatch_suffix: "st' \<in> set (rmatch ic r st) \<Longrightarrow> \<exists>m. snd st = m @ snd st'"
proof (induction r arbitrary: st st')
  case (Cls neg items)
  show ?case
  proof (cases "snd st")
    case Nil
    with Cls show ?thesis by simp
  next
    case (Cons c cs)
    with Cls have "snd st' = cs" by (auto split: if_splits)
    with Cons have "snd st = [c] @ snd st'" by simp
    then show ?thesis by blast
  qed
next
  case (Seq r1 r2)
  from Seq.prems obtain st1 where 1: "st1 \<in> set (rmatch ic r1 st)" "st' \<in> set (rmatch ic r2 st1)"
    by auto
  from Seq.IH(1) [OF 1(1)] obtain m1 where "snd st = m1 @ snd st1" by blast
  moreover from Seq.IH(2) [OF 1(2)] obtain m2 where "snd st1 = m2 @ snd st'" by blast
  ultimately have "snd st = (m1 @ m2) @ snd st'" by simp
  then show ?case by blast
next
  case (Alt r1 r2)
  from Alt.prems have "st' \<in> set (rmatch ic r1 st) \<or> st' \<in> set (rmatch ic r2 st)"
    by simp
  then show ?case using Alt.IH by blast
next
  case (Star r)
  from Star.prems have "st' \<in> set (star_iter (rmatch ic r) (length (snd st)) st)"
    by simp
  then show ?case
    by (rule star_iter_suffix [rotated]) (rule Star.IH)
next
  case (Opt r)
  from Opt.prems have "st' = st \<or> st' \<in> set (rmatch ic r st)"
    by auto
  then show ?case using Opt.IH by blast
next
  case Bol
  then show ?case by (simp split: if_splits)
next
  case Eol
  then show ?case by (simp split: if_splits)
next
  case WordB
  then show ?case by (simp split: if_splits)
next
  case Eps
  then show ?case by simp
qed

lemma search_with_split:
  assumes "\<And>st x. x \<in> set (m st) \<Longrightarrow> \<exists>mt. snd st = mt @ e x"
  shows "search_with m p s = Some (g, x) \<Longrightarrow> \<exists>mt. s = g @ mt @ e x"
proof (induction s arbitrary: p g)
  case Nil
  then show ?case using assms [of x "(p, [])"]
    by (auto split: list.splits)
next
  case (Cons c cs)
  show ?case
  proof (cases "m (p, c # cs)")
    case Nil
    with Cons.prems obtain g' where g': "search_with m (Some c) cs = Some (g', x)" "g = c # g'"
      by (auto split: option.splits)
    from Cons.IH [OF g'(1)] g'(2) show ?thesis by auto
  next
    case (Cons y ys)
    with Cons.prems have "g = []" "x = y" by auto
    moreover have "\<exists>mt. c # cs = mt @ e y"
      using assms [of y "(p, c # cs)"] Cons by simp
    ultimately show ?thesis by auto
  qed
qed
lemma exec_from_split:
  assumes "exec_from ic r st = Some (g, m, st')"
  shows "snd st = g @ m @ snd st'"
proof -
  from assms have s: "search_with (rmatch ic r) (fst st) (snd st) = Some (g, st')"
    and m: "m = take (length (snd st) - length g - length (snd st')) (drop (length g) (snd st))"
    by (auto simp: exec_from_def split: option.splits)
  have "\<exists>mt. snd st = g @ mt @ snd st'"
    by (rule search_with_split [OF _ s]) (simp add: rmatch_suffix)
  then obtain mt where "snd st = g @ mt @ snd st'" by blast
  with m show ?thesis by simp
qed

text \<open>The matches of a pattern with the flag \<open>g\<close>, as \<open>String.prototype.match\<close> and
  \<open>String.prototype.replace\<close> find them: each search starts where the match before it
  ended, one code unit further after an empty match. The scan returns the matches, each
  with the input skipped before it, and the input left after the last one.\<close>

fun skip_unit :: "char \<Rightarrow> (string \<times> string) list \<times> string \<Rightarrow> (string \<times> string) list \<times> string" where
  "skip_unit c ([], rest) = ([], c # rest)"
| "skip_unit c ((g, m) # ps, rest) = ((c # g, m) # ps, rest)"

function scan_all :: "bool \<Rightarrow> regex \<Rightarrow> mstate \<Rightarrow> (string \<times> string) list \<times> string" where
  "scan_all ic r st =
     (case exec_from ic r st of
        None \<Rightarrow> ([], snd st)
      | Some (g, m, st') \<Rightarrow>
          if m \<noteq> [] then (case scan_all ic r st' of (ps, rest) \<Rightarrow> ((g, m) # ps, rest))
          else (case snd st' of
                  [] \<Rightarrow> ([(g, [])], [])
                | c # cs \<Rightarrow>
                    (case skip_unit c (scan_all ic r (Some c, cs)) of
                       (ps, rest) \<Rightarrow> ((g, []) # ps, rest))))"
  by pat_completeness auto
termination
proof (relation "measure (\<lambda>(ic, r, st). length (snd st))")
  show "wf (measure (\<lambda>(ic, r, st). length (snd st)))" by simp
next
  fix ic r st x2 g y m st'
  assume "exec_from ic r st = Some x2" "(g, y) = x2" "(m, st') = y" "m \<noteq> []"
  then have "snd st = g @ m @ snd st'"
    using exec_from_split [of ic r st g m st'] by simp
  with \<open>m \<noteq> []\<close> show "((ic, r, st'), ic, r, st) \<in> measure (\<lambda>(ic, r, st). length (snd st))"
    by (cases m) simp_all
next
  fix ic r st x2 g y m st' c cs
  assume "exec_from ic r st = Some x2" "(g, y) = x2" "(m, st') = y" "snd st' = c # cs"
  then have "snd st = g @ m @ c # cs"
    using exec_from_split [of ic r st g m st'] by simp
  then show "((ic, r, Some c, cs), ic, r, st) \<in> measure (\<lambda>(ic, r, st). length (snd st))"
    by simp
qed

declare scan_all.simps [simp del]

definition match_g :: "bool \<Rightarrow> regex \<Rightarrow> string \<Rightarrow> string list" where
  "match_g ic r s = map snd (fst (scan_all ic r (None, s)))"

definition replace_g :: "bool \<Rightarrow> regex \<Rightarrow> string \<Rightarrow> string" where
  "replace_g ic r s =
     (case scan_all ic r (None, s) of (ps, rest) \<Rightarrow> concat (map fst ps) @ rest)"

section \<open>Files and their validation (file-utils.ts, validation-schemas.ts)\<close>

text \<open>A \<open>File\<close>: its name, its declared media type, its modification time and its
  content. \<open>file.size\<close> is the number of bytes of the content.\<close>

record File =
  fname :: string
  ftype :: string
  lastModified :: int
  content :: "8 word list"

definition file_size :: "File \<Rightarrow> nat" where
  "file_size f = length (content f)"

definition VALID_IMAGE_TYPES :: "string list" where
  "VALID_IMAGE_TYPES =
     [''image/png'', ''image/jpeg'', ''image/jpg'', ''image/avif'', ''image/webp'', ''image/gif'']"

definition VALID_IMAGE_EXTENSIONS :: "string list" where
  "VALID_IMAGE_EXTENSIONS = [''.png'', ''.jpg'', ''.jpeg'', ''.avif'', ''.webp'', ''.gif'']"

definition PDF_EXTENSION :: string where
  "PDF_EXTENSION = ''.pdf''"

definition MAX_FILE_SIZE :: nat where
  "MAX_FILE_SIZE = 10 * 1024 * 1024"

text \<open>\<open>pdfFileSchema\<close> and \<open>imageFileSchema\<close>: a schema accepts a file when each of its three
  refinements does.\<close>

definition pdfFileSchema :: "File \<Rightarrow> bool" where
  "pdfFileSchema f =
     (file_size f > 0 \<and> file_size f \<le> MAX_FILE_SIZE \<and>
      (ftype f = ''application/pdf'' \<or> endsWith (toLowerCase (fname f)) PDF_EXTENSION))"

definition imageFileSchema :: "File \<Rightarrow> bool" where
  "imageFileSchema f =
     (file_size f > 0 \<and> file_size f \<le> MAX_FILE_SIZE \<and>
      (List.member VALID_IMAGE_TYPES (ftype f) \<or>
       list_ex (\<lambda>ext. endsWith (toLowerCase (fname f)) ext) VALID_IMAGE_EXTENSIONS))"

definition isValidPdfFile :: "File \<Rightarrow> bool" where
  "isValidPdfFile f = pdfFileSchema f"

definition isValidImageFile :: "File \<Rightarrow> bool" where
  "isValidImageFile f = imageFileSchema f"

definition getMimeType :: "File \<Rightarrow> string" where
  "getMimeType f = (if ftype f = [] then ''application/octet-stream'' else ftype f)"

text \<open>\<open>generateFileHash\<close>: the loop over the sample, \<open>hash = ((hash << 5) - hash) + bytes[i];
  hash = hash & hash\<close>, started at 0, then the name, the size and the absolute value of the
  hash in base 36.\<close>

definition hash_step :: "int \<Rightarrow> 8 word \<Rightarrow> int" where
  "hash_step hash b = (let h = (shl32 hash 5 - hash) + uint b in and32 h h)"

definition SAMPLE_SIZE :: nat where
  "SAMPLE_SIZE = 8192"

definition generateFileHash :: "File \<Rightarrow> string" where
  "generateFileHash f =
     (let bytes = take (min SAMPLE_SIZE (file_size f)) (content f);
          hash = foldl hash_step 0 bytes
      in fname f @ ''-'' @ toString10 (file_size f) @ ''-'' @ toString36 (nat \<bar>hash\<bar>))"

section \<open>Validation of URLs, base64 text and API keys (validation-schemas.ts)\<close>

text \<open>
  The URL parser belongs to the platform, not to the repository: \<open>z.string().url()\<close> of the
  validation library and the constructor \<open>new URL(url)\<close>. Both are parameters of the
  model. \<open>new_URL_protocol\<close> is the \<open>protocol\<close> of the parsed URL, and \<open>None\<close> when the
  constructor throws.
\<close>

record platform =
  zod_string_url :: "string \<Rightarrow> bool"
  new_URL_protocol :: "string \<Rightarrow> string option"

definition urlSchema :: "platform \<Rightarrow> string \<Rightarrow> bool" where
  "urlSchema pf url =
     (zod_string_url pf url \<and>
      (case new_URL_protocol pf url of
         None \<Rightarrow> False
       | Some protocol \<Rightarrow> protocol = ''http:'' \<or> protocol = ''https:''))"

definition pdfUrlSchema :: "platform \<Rightarrow> string \<Rightarrow> bool" where
  "pdfUrlSchema pf url =
     (urlSchema pf url \<and>
      (let urlLower = toLowerCase url in
       endsWith urlLower PDF_EXTENSION \<or> includes_str urlLower ''.pdf?''))"

definition imageUrlSchema :: "platform \<Rightarrow> string \<Rightarrow> bool" where
  "imageUrlSchema pf url =
     (urlSchema pf url \<and>
      (let urlLower = toLowerCase url in
       list_ex (\<lambda>ext. endsWith urlLower ext \<or> includes_str urlLower (ext @ ''?''))
         VALID_IMAGE_EXTENSIONS))"

text \<open>\<open>/^[A-Za-z0-9+/]+=*$/\<close>\<close>

definition base64Pattern :: regex where
  "base64Pattern =
     seqs [Bol,
           Plus (Cls False [Rng CHR ''A'' CHR ''Z'', Rng CHR ''a'' CHR ''z'', Rng CHR ''0'' CHR ''9'',
                            Ch CHR ''+'', Ch CHR ''/'']),
           Star (lit CHR ''=''),
           Eol]"

definition base64Schema :: "string \<Rightarrow> bool" where
  "base64Schema s = (length s \<ge> 50 \<and> regex_test False base64Pattern s)"

text \<open>\<open>/^data:([^;]+);base64,(.+)$/\<close>, as its six factors; the groups are the third and the
  fifth. The dot matches every code unit but a line terminator.\<close>

definition dataUrlFactors :: "regex list" where
  "dataUrlFactors =
     [Bol, str ''data:'', Plus (Cls True [Ch CHR '';'']), str '';base64,'',
      Plus (Cls True [Ch CHR 0x0A, Ch CHR 0x0D]), Eol]"

definition dataUrlSchema :: "string \<Rightarrow> bool" where
  "dataUrlSchema s = regex_test False (seqs dataUrlFactors) s"

definition apiKeySchema :: "string \<Rightarrow> bool" where
  "apiKeySchema k = (length k \<ge> 10 \<and> length (trim k) > 0)"

definition validateUrl :: "platform \<Rightarrow> string \<Rightarrow> bool" where
  "validateUrl pf url = urlSchema pf url"

definition isDataUrl :: "string \<Rightarrow> bool" where
  "isDataUrl url = dataUrlSchema url"

text \<open>\<open>extractBase64FromDataUrl\<close>: \<open>match[1]\<close> and \<open>match[2]\<close> are the texts of the third and
  the fifth factor.\<close>

definition factor_text :: "mstate list \<Rightarrow> nat \<Rightarrow> string" where
  "factor_text path k =
     take (length (snd (path ! (k - 1))) - length (snd (path ! k))) (snd (path ! (k - 1)))"

record DataUrlParts =
  ex_base64 :: string
  ex_mimeType :: string

definition extractBase64FromDataUrl :: "string \<Rightarrow> DataUrlParts option" where
  "extractBase64FromDataUrl dataUrl =
     (if \<not> dataUrlSchema dataUrl then None
      else (case search_with (rmatch_path False dataUrlFactors) None dataUrl of
              None \<Rightarrow> None
            | Some (g, path) \<Rightarrow>
                Some \<lparr>ex_base64 = factor_text path 5, ex_mimeType = factor_text path 3\<rparr>))"

section \<open>Input classification (file-utils.ts)\<close>

datatype InputType = IT_url | IT_base64 | IT_unknown

datatype ContentType = CT_pdf | CT_image | CT_unknown

record DetectedInput =
  inputType :: InputType
  contentType :: ContentType
  dvalue :: string

text \<open>The separators of the URL patterns, \<open>[^\s,;]\<close>, and the classes of a domain label.\<close>

definition notSeparator :: regex where
  "notSeparator = Cls True [WhiteSpaceCls, Ch CHR '','', Ch CHR '';'']"

definition alnum :: regex where
  "alnum = Cls False [Rng CHR ''a'' CHR ''z'', Rng CHR ''0'' CHR ''9'']"

definition alnumDash :: regex where
  "alnumDash = Cls False [Rng CHR ''a'' CHR ''z'', Rng CHR ''0'' CHR ''9'', Ch CHR ''-'']"

definition alpha :: regex where
  "alpha = Cls False [Rng CHR ''a'' CHR ''z'']"

text \<open>\<open>[a-z0-9]([a-z0-9-]*[a-z0-9])?\<close>\<close>

definition domainLabel :: "regex list" where
  "domainLabel = [alnum, Opt (Seq (Star alnumDash) alnum)]"

text \<open>\<open>(png|jpe?g|avif|webp|gif)\<close>\<close>

definition imageExtensions :: "regex list" where
  "imageExtensions =
     [str ''png'', seqs [str ''jp'', Opt (lit CHR ''e''), lit CHR ''g''], str ''avif'',
      str ''webp'', str ''gif'']"

text \<open>\<open>/https?:\/\/[^\s,;]+/gi\<close>\<close>

definition fullUrlPattern :: regex where
  "fullUrlPattern = seqs [str ''http'', Opt (lit CHR ''s''), str ''://'', Plus notSeparator]"

text \<open>\<open>/\bwww\.[a-z0-9]([a-z0-9-]*[a-z0-9])?(\.[a-z0-9]([a-z0-9-]*[a-z0-9])?)*\.[a-z]{2,}[^\s,;]*/gi\<close>\<close>

definition wwwPattern :: regex where
  "wwwPattern =
     seqs ([WordB, str ''www.''] @ domainLabel @
           [Star (seqs (lit CHR ''.'' # domainLabel)), lit CHR ''.'', AtLeast2 alpha,
            Star notSeparator])"

text \<open>\<open>/\b([a-z0-9]([a-z0-9-]*[a-z0-9])?\.)+[a-z]{2,}\/[^\s,;]+\.(pdf|png|jpe?g|avif|webp|gif)\b/gi\<close>\<close>

definition domainPattern :: regex where
  "domainPattern =
     seqs [WordB, Plus (seqs (domainLabel @ [lit CHR ''.''])), AtLeast2 alpha, lit CHR ''/'',
           Plus notSeparator, lit CHR ''.'', alts (str ''pdf'' # imageExtensions), WordB]"

definition hasMultipleUrls :: "string \<Rightarrow> bool" where
  "hasMultipleUrls input =
     (let fullUrlMatches = match_g True fullUrlPattern input;
          remainingInput = replace_g True fullUrlPattern input;
          wwwMatches = match_g True wwwPattern remainingInput;
          remainingInput' = replace_g True wwwPattern remainingInput;
          domainMatches = match_g True domainPattern remainingInput';
          totalMatches = length fullUrlMatches + length wwwMatches + length domainMatches
      in totalMatches > 1)"

text \<open>\<open>/\.(png|jpe?g|avif|webp|gif)(\?|$)/i\<close>\<close>

definition imageUrlPattern :: regex where
  "imageUrlPattern = seqs [lit CHR ''.'', alts imageExtensions, Alt (lit CHR ''?'') Eol]"

definition detectInputType :: "platform \<Rightarrow> string \<Rightarrow> DetectedInput" where
  "detectInputType pf input =
     (let trimmedInput = trim input in
      if validateUrl pf trimmedInput then
        (let urlLower = toLowerCase trimmedInput in
         if endsWith urlLower ''.pdf'' \<or> includes_str urlLower ''.pdf?''
         then \<lparr>inputType = IT_url, contentType = CT_pdf, dvalue = trimmedInput\<rparr>
         else if regex_test True imageUrlPattern urlLower
         then \<lparr>inputType = IT_url, contentType = CT_image, dvalue = trimmedInput\<rparr>
         else \<lparr>inputType = IT_url, contentType = CT_unknown, dvalue = trimmedInput\<rparr>)
      else
        (case (if isDataUrl trimmedInput then extractBase64FromDataUrl trimmedInput else None) of
           Some extracted \<Rightarrow>
             \<lparr>inputType = IT_base64,
              contentType =
                (if startsWith (ex_mimeType extracted) ''image/'' then CT_image
                 else if ex_mimeType extracted = ''application/pdf'' then CT_pdf else CT_unknown),
              dvalue = ex_base64 extracted\<rparr>
         | None \<Rightarrow>
             if length trimmedInput > 50 \<and> regex_test False base64Pattern trimmedInput then
               (if startsWith trimmedInput ''JVBERi0''
                then \<lparr>inputType = IT_base64, contentType = CT_pdf, dvalue = trimmedInput\<rparr>
                else if startsWith trimmedInput ''iVBORw0KGgo'' \<or>
                        startsWith trimmedInput ''/9j/'' \<or>
                        startsWith trimmedInput ''R0lGOD''
                then \<lparr>inputType = IT_base64, contentType = CT_image, dvalue = trimmedInput\<rparr>
                else \<lparr>inputType = IT_base64, contentType = CT_unknown, dvalue = trimmedInput\<rparr>)
             else \<lparr>inputType = IT_unknown, contentType = CT_unknown, dvalue = trimmedInput\<rparr>))"

section \<open>Cache keys (query-client.ts, use-ocr.ts)\<close>

text \<open>\<open>generateBase64Hash\<close>: the string itself when it has fewer than 40 code units,
  otherwise its first 20 code units, its length and its last 20 code units, joined by
  \<open>-\<close>.\<close>

definition generateBase64Hash :: "string \<Rightarrow> string" where
  "generateBase64Hash base64 =
     (let len = length base64 in
      if len < 40 then base64
      else slice_to 20 base64 @ ''-'' @ toString10 len @ ''-'' @ slice_last 20 base64)"

text \<open>A query key is an array of strings and numbers.\<close>

datatype key_part = KStr string | KNum int

type_synonym query_key = "key_part list"

definition ocrKeys_all :: query_key where
  "ocrKeys_all = [KStr ''ocr'']"

definition ocrKeys_urlDocument :: "string \<Rightarrow> query_key" where
  "ocrKeys_urlDocument url = ocrKeys_all @ [KStr ''url-document'', KStr url]"

definition ocrKeys_urlImage :: "string \<Rightarrow> query_key" where
  "ocrKeys_urlImage url = ocrKeys_all @ [KStr ''url-image'', KStr url]"

definition ocrKeys_base64Document :: "string \<Rightarrow> query_key" where
  "ocrKeys_base64Document hash = ocrKeys_all @ [KStr ''base64-document'', KStr hash]"

definition ocrKeys_base64Image :: "string \<Rightarrow> query_key" where
  "ocrKeys_base64Image hash = ocrKeys_all @ [KStr ''base64-image'', KStr hash]"

definition ocrKeys_fileDocument :: "string \<Rightarrow> int \<Rightarrow> int \<Rightarrow> query_key" where
  "ocrKeys_fileDocument name sz modified =
     ocrKeys_all @ [KStr ''file-document'', KStr name, KNum sz, KNum modified]"

definition ocrKeys_fileImage :: "string \<Rightarrow> int \<Rightarrow> int \<Rightarrow> query_key" where
  "ocrKeys_fileImage name sz modified =
     ocrKeys_all @ [KStr ''file-image'', KStr name, KNum sz, KNum modified]"

text \<open>The input of an OCR request, \<open>OCRInputType\<close>.\<close>

datatype OCRInputType =
    UrlDocument string
  | UrlImage string
  | Base64Document string string
  | Base64Image string string
  | FileInput File

fun getCacheKey :: "OCRInputType \<Rightarrow> query_key" where
  "getCacheKey (UrlDocument url) = ocrKeys_urlDocument url"
| "getCacheKey (UrlImage url) = ocrKeys_urlImage url"
| "getCacheKey (Base64Document base64 mimeType) =
     ocrKeys_base64Document (generateBase64Hash base64)"
| "getCacheKey (Base64Image base64 mimeType) =
     ocrKeys_base64Image (generateBase64Hash base64)"
| "getCacheKey (FileInput f) =
     (let fileHash = generateFileHash f in
      if isValidPdfFile f
      then ocrKeys_fileDocument fileHash (int (file_size f)) 0
      else ocrKeys_fileImage fileHash (int (file_size f)) 0)"

text \<open>The rolling hash as the specification words it: \<open>hash = hash * 31 + byte\<close>, wrapped to
  the signed 32-bit range, over the sample.\<close>

definition wrap32 :: "int \<Rightarrow> int" where
  "wrap32 x = (x + 2 ^ 31) mod 2 ^ 32 - 2 ^ 31"

definition rolling_hash :: "8 word list \<Rightarrow> int" where
  "rolling_hash bs = foldl (\<lambda>h b. wrap32 (h * 31 + uint b)) 0 bs"

section \<open>OCR service (ocr-service.ts)\<close>

text \<open>
  The external OCR client, the clock and the file reader belong to the environment.
  \<open>ocr_process\<close> is \<open>client.ocr.process\<close>: it answers a request with a response, or rejects
  it with an error. \<open>elapsed\<close> is the time between the two readings of \<open>Date.now()\<close> around
  the call, and \<open>readAsDataURL\<close> is the result of the \<open>FileReader\<close>, \<open>None\<close> when it fails.
\<close>

type_synonym OCRImageObject = string

record OCRPageObject =
  markdown :: string
  page_images :: "OCRImageObject list option"

record OCRResponse =
  resp_pages :: "OCRPageObject list option"

record OCRResult =
  res_text :: string
  res_pages :: "nat option"
  res_processingTime :: int
  res_images :: "OCRImageObject list"

datatype ocr_document = DocumentUrlChunk string | ImageUrlChunk string

record OCRRequest =
  req_model :: string
  req_document :: ocr_document
  includeImageBase64 :: bool

record environment =
  ocr_process :: "OCRRequest \<Rightarrow> string + OCRResponse"
  elapsed :: int
  readAsDataURL :: "File \<Rightarrow> string option"

text \<open>The errors a request can end in: a schema that rejects its input (\<open>parse\<close> throws),
  the rejection of the external call with the client's error, and a file that cannot be
  read. The \<open>default\<close> branch of the switch over the input is not reachable from an
  \<open>OCRInputType\<close>.\<close>

datatype error = ZodError | ExternalCallError string | FileReadError

text \<open>The state the requests run in: the query cache, and the log of the requests sent to
  the external client.\<close>

record app_state =
  cache :: "query_key \<Rightarrow> OCRResult option"
  requests :: "OCRRequest list"

definition ocrResultSchema :: "OCRResult \<Rightarrow> bool" where
  "ocrResultSchema r =
     ((case res_pages r of None \<Rightarrow> True | Some n \<Rightarrow> 0 < n) \<and> 0 < res_processingTime r)"

fun join :: "string \<Rightarrow> string list \<Rightarrow> string" where
  "join sep [] = []"
| "join sep [x] = x"
| "join sep (x # xs) = x @ sep @ join sep xs"

definition extractText :: "OCRResponse \<Rightarrow> string" where
  "extractText response =
     (case resp_pages response of
        None \<Rightarrow> ''No text extracted from document''
      | Some ps \<Rightarrow>
          if ps = [] then ''No text extracted from document''
          else
            (let extractedText =
               join [CHR 0x0A, CHR 0x0A, CHR ''-'', CHR ''-'', CHR ''-'', CHR 0x0A, CHR 0x0A]
                 (filter (\<lambda>t. length (trim t) > 0)
                    (map (\<lambda>page.
                            if markdown page \<noteq> [] \<and> length (trim (markdown page)) > 0
                            then markdown page else [])
                       ps))
             in if length (trim extractedText) > 0 then extractedText
                else ''No text found in document pages''))"

definition extractImages :: "OCRResponse \<Rightarrow> OCRImageObject list" where
  "extractImages response =
     (case resp_pages response of
        None \<Rightarrow> []
      | Some ps \<Rightarrow>
          concat (map (\<lambda>page. case page_images page of None \<Rightarrow> [] | Some imgs \<Rightarrow> imgs) ps))"

text \<open>The body the four entry points share after their validation: the request is sent,
  the response is normalised, and the result is checked against \<open>ocrResultSchema\<close>.\<close>

definition ocr_call ::
  "environment \<Rightarrow> ocr_document \<Rightarrow> app_state \<Rightarrow> (error + OCRResult) \<times> app_state" where
  "ocr_call env doc st =
     (let req = \<lparr>req_model = ''mistral-ocr-latest'', req_document = doc,
                 includeImageBase64 = True\<rparr>;
          st' = st\<lparr>requests := requests st @ [req]\<rparr>
      in case ocr_process env req of
           Inl e \<Rightarrow> (Inl (ExternalCallError e), st')
         | Inr response \<Rightarrow>
             (let result = \<lparr>res_text = extractText response,
                             res_pages = map_option length (resp_pages response),
                             res_processingTime = elapsed env,
                             res_images = extractImages response\<rparr>
              in if ocrResultSchema result then (Inr result, st') else (Inl ZodError, st')))"

definition processDocumentUrl ::
  "platform \<Rightarrow> environment \<Rightarrow> string \<Rightarrow> app_state \<Rightarrow> (error + OCRResult) \<times> app_state" where
  "processDocumentUrl pf env documentUrl st =
     (if \<not> pdfUrlSchema pf documentUrl then (Inl ZodError, st)
      else ocr_call env (DocumentUrlChunk documentUrl) st)"

definition processImageUrl ::
  "platform \<Rightarrow> environment \<Rightarrow> string \<Rightarrow> app_state \<Rightarrow> (error + OCRResult) \<times> app_state" where
  "processImageUrl pf env imageUrl st =
     (if \<not> imageUrlSchema pf imageUrl then (Inl ZodError, st)
      else ocr_call env (ImageUrlChunk imageUrl) st)"

definition processBase64Document ::
  "environment \<Rightarrow> string \<Rightarrow> string \<Rightarrow> app_state \<Rightarrow> (error + OCRResult) \<times> app_state" where
  "processBase64Document env base64Data mimeType st =
     (if \<not> base64Schema base64Data then (Inl ZodError, st)
      else ocr_call env (DocumentUrlChunk (''data:'' @ mimeType @ '';base64,'' @ base64Data)) st)"

definition processBase64Image ::
  "environment \<Rightarrow> string \<Rightarrow> string \<Rightarrow> app_state \<Rightarrow> (error + OCRResult) \<times> app_state" where
  "processBase64Image env base64Data mimeType st =
     (if \<not> base64Schema base64Data then (Inl ZodError, st)
      else ocr_call env (ImageUrlChunk (''data:'' @ mimeType @ '';base64,'' @ base64Data)) st)"

text \<open>\<open>fileToBase64\<close>: the data URL of the file, \<open>split(',')[1]\<close>: the text between the first
  comma and the second, undefined when the data URL has no comma.\<close>

definition split_comma_1 :: "string \<Rightarrow> string option" where
  "split_comma_1 s =
     (case dropWhile (\<lambda>c. c \<noteq> CHR '','') s of
        [] \<Rightarrow> None
      | c # rest \<Rightarrow> Some (takeWhile (\<lambda>c. c \<noteq> CHR '','') rest))"

definition fileToBase64 :: "environment \<Rightarrow> File \<Rightarrow> error + string option" where
  "fileToBase64 env f =
     (case readAsDataURL env f of
        None \<Rightarrow> Inl FileReadError
      | Some base64String \<Rightarrow> Inr (split_comma_1 base64String))"

section \<open>The cache-first request (use-ocr.ts)\<close>

text \<open>\<open>mutationFn\<close> of \<open>useOCRMutation\<close>, the operation \<open>process\<close> of the specification. A
  result in the cache is an object, so the test \<open>if (cachedData)\<close> holds exactly when the key
  has an entry. The service is constructed, and the API key validated, after the cache was
  looked up; \<open>service_switch\<close> is the switch over the input that follows. An undefined
  \<open>base64Data\<close> is rejected by \<open>base64Schema\<close>.\<close>

definition service_switch ::
  "platform \<Rightarrow> environment \<Rightarrow> OCRInputType \<Rightarrow> app_state \<Rightarrow> (error + OCRResult) \<times> app_state" where
  "service_switch pf env input st =
     (case input of
        UrlDocument url \<Rightarrow> processDocumentUrl pf env url st
      | UrlImage url \<Rightarrow> processImageUrl pf env url st
      | Base64Document base64 mimeType \<Rightarrow> processBase64Document env base64 mimeType st
      | Base64Image base64 mimeType \<Rightarrow> processBase64Image env base64 mimeType st
      | FileInput f \<Rightarrow>
          (case fileToBase64 env f of
             Inl e \<Rightarrow> (Inl e, st)
           | Inr None \<Rightarrow> (Inl ZodError, st)
           | Inr (Some base64Data) \<Rightarrow>
               (let mimeType = getMimeType f in
                if isValidPdfFile f
                then processBase64Document env base64Data mimeType st
                else processBase64Image env base64Data mimeType st)))"

definition mutationFn ::
  "platform \<Rightarrow> environment \<Rightarrow> string \<Rightarrow> OCRInputType \<Rightarrow> app_state \<Rightarrow>
   (error + OCRResult) \<times> app_state" where
  "mutationFn pf env apiKey input st =
     (let cacheKey = getCacheKey input in
      case cache st cacheKey of
        Some cachedData \<Rightarrow> (Inr cachedData, st)
      | None \<Rightarrow>
          if \<not> apiKeySchema apiKey then (Inl ZodError, st)
          else
            (case service_switch pf env input st of
               (Inl e, st') \<Rightarrow> (Inl e, st')
             | (Inr result, st') \<Rightarrow>
                 (Inr result, st'\<lparr>cache := (cache st')(cacheKey \<mapsto> result)\<rparr>)))"

section \<open>Properties of the base64 digest\<close>

lemma toString_radix_length: "0 < length (toString_radix b n)"
  by (induction b n rule: toString_radix.induct) (subst toString_radix.simps, simp)

lemma toString_radix_small: "n < b \<Longrightarrow> toString_radix b n = [digit_char n]"
  by (subst toString_radix.simps) simp

lemma toString_radix_step:
  "2 \<le> b \<Longrightarrow> b \<le> n \<Longrightarrow>
   toString_radix b n = toString_radix b (n div b) @ [digit_char (n mod b)]"
  by (subst toString_radix.simps) simp

text \<open>
  C4 (as amended). For every string \<open>s\<close> of length below 40 the digest is \<open>s\<close> itself.
  The source compares \<open>length < 40\<close>, so the bound of the claim, at most 40, is one too
  large: a string of exactly 40 code units is rewritten.
\<close>

theorem generateBase64Hash_short:
  "length s < 40 \<Longrightarrow> generateBase64Hash s = s"
  by (simp add: generateBase64Hash_def)

theorem generateBase64Hash_short_witness:
  "length ''JVBERi0xLjQK'' < 40 \<and> generateBase64Hash ''JVBERi0xLjQK'' = ''JVBERi0xLjQK''"
  using generateBase64Hash_short [of "''JVBERi0xLjQK''"] by simp

text \<open>The claim as stated fails at length 40: the digest of forty \<open>A\<close>s has 44 code
  units.\<close>

theorem generateBase64Hash_forty_counterexample:
  "length (replicate 40 CHR ''A'') \<le> 40 \<and>
   generateBase64Hash (replicate 40 CHR ''A'') \<noteq> replicate 40 CHR ''A''"
proof -
  have "length (generateBase64Hash (replicate 40 CHR ''A'')) > 40"
    using toString_radix_length [of 10 40]
    by (simp add: generateBase64Hash_def slice_to_def slice_last_def toString10_def)
  then show ?thesis by auto
qed

section \<open>Properties of file validation and file keys\<close>

text \<open>
  C10. A file of 0 bytes, or of more than 10485760 bytes, is rejected by the PDF validator
  and by the image validator whatever its media type and its name are, so its cache key
  is of the \<open>file-image\<close> kind.
\<close>

theorem validators_reject_by_size:
  "file_size f = 0 \<or> 10485760 < file_size f \<Longrightarrow>
   \<not> isValidPdfFile f \<and> \<not> isValidImageFile f \<and>
   getCacheKey (FileInput f) = ocrKeys_fileImage (generateFileHash f) (int (file_size f)) 0"
  by (auto simp: isValidPdfFile_def isValidImageFile_def pdfFileSchema_def imageFileSchema_def
      MAX_FILE_SIZE_def)

theorem validators_reject_by_size_witness:
  "file_size \<lparr>fname = ''a.pdf'', ftype = ''application/pdf'', lastModified = 0, content = []\<rparr> = 0 \<and>
   \<not> isValidPdfFile
       \<lparr>fname = ''a.pdf'', ftype = ''application/pdf'', lastModified = 0, content = []\<rparr> \<and>
   10485760 <
     file_size \<lparr>fname = ''a.png'', ftype = ''image/png'', lastModified = 0,
       content = replicate 10485761 0\<rparr> \<and>
   \<not> isValidImageFile
       \<lparr>fname = ''a.png'', ftype = ''image/png'', lastModified = 0,
        content = replicate 10485761 0\<rparr>"
  using
    validators_reject_by_size
      [of "\<lparr>fname = ''a.pdf'', ftype = ''application/pdf'', lastModified = 0, content = []\<rparr>"]
    validators_reject_by_size
      [of "\<lparr>fname = ''a.png'', ftype = ''image/png'', lastModified = 0,
            content = replicate 10485761 0\<rparr>"]
  by (simp add: file_size_def)

text \<open>The loop of \<open>generateFileHash\<close> computes the rolling hash of the specification: a
  shift by 5 minus the value is a multiplication by 31 modulo \<open>2^32\<close>.\<close>

lemma sint_wrap32: "sint (word_of_int x :: 32 word) = wrap32 x"
  unfolding wrap32_def
  by (simp add: sint_sbintrunc' signed_take_bit_eq_take_bit_shift take_bit_eq_mod)

lemma and32_self: "and32 x x = wrap32 x"
  by (simp add: and32_def sint_wrap32)

lemma shl32_5: "shl32 x 5 = wrap32 (x * 32)"
  using sint_wrap32 [of "x * 32"] by (simp add: shl32_def push_bit_eq_mult)

lemma wrap32_step: "wrap32 (wrap32 (h * 32) - h + c) = wrap32 (h * 31 + c)"
proof -
  define m :: int where "m = 2 ^ 32"
  define k :: int where "k = 2 ^ 31"
  have "((h * 32 + k) mod m - k - h + c + k) mod m = ((h * 32 + k) mod m + (c - h)) mod m"
    by (simp add: algebra_simps)
  also have "\<dots> = ((h * 32 + k) + (c - h)) mod m"
    by (rule mod_add_left_eq)
  also have "\<dots> = (h * 31 + c + k) mod m"
    by (simp add: algebra_simps)
  finally show ?thesis
    by (simp add: wrap32_def m_def k_def)
qed

lemma hash_step_spec: "hash_step h b = wrap32 (h * 31 + uint b)"
proof -
  have "wrap32 (wrap32 (h * 32) - h + uint b) = wrap32 (h * 31 + uint b)"
    by (rule wrap32_step)
  then show ?thesis
    by (simp add: hash_step_def and32_self shl32_5 Let_def)
qed

lemma foldl_hash_step: "foldl hash_step h bs = foldl (\<lambda>h b. wrap32 (h * 31 + uint b)) h bs"
  by (induction bs arbitrary: h) (simp_all add: hash_step_spec)

lemma generateFileHash_spec:
  "generateFileHash f =
     fname f @ ''-'' @ toString10 (file_size f) @ ''-'' @
     toString36 (nat \<bar>rolling_hash (take 8192 (content f))\<bar>)"
proof -
  have "take (min SAMPLE_SIZE (file_size f)) (content f) = take 8192 (content f)"
    by (simp add: SAMPLE_SIZE_def file_size_def min_def)
  then show ?thesis
    by (simp add: generateFileHash_def rolling_hash_def foldl_hash_step Let_def)
qed

text \<open>
  C5 (as amended). Two files with the same name, the same size, the same declared media
  type and the same first 8192 bytes get the same cache key, whatever their modification
  times are. The key is \<open>ocr\<close>, the kind, the content hash, the size and the literal 0,
  and the content hash is the name, the size and the absolute value, in base 36, of the
  rolling hash \<open>h = h * 31 + byte\<close> (wrapped to 32 bits, signed) of the first 8192 bytes.
  The kind is \<open>file-document\<close> or \<open>file-image\<close> by the PDF validator, which reads the media
  type: without the same media type the keys can differ.
\<close>

theorem getCacheKey_file_content_addressed:
  assumes "fname f = fname g" and "file_size f = file_size g" and "ftype f = ftype g"
    and "take 8192 (content f) = take 8192 (content g)"
  shows "getCacheKey (FileInput f) = getCacheKey (FileInput g) \<and>
    getCacheKey (FileInput f) =
      [KStr ''ocr'', KStr (if isValidPdfFile f then ''file-document'' else ''file-image''),
       KStr (fname f @ ''-'' @ toString10 (file_size f) @ ''-'' @
             toString36 (nat \<bar>rolling_hash (take 8192 (content f))\<bar>)),
       KNum (int (file_size f)), KNum 0]"
proof -
  have h: "generateFileHash f = generateFileHash g"
    using assms by (simp add: generateFileHash_spec)
  have v: "isValidPdfFile f = isValidPdfFile g"
    using assms by (simp add: isValidPdfFile_def pdfFileSchema_def)
  have "getCacheKey (FileInput f) = getCacheKey (FileInput g)"
    using h v assms(2) by (simp add: Let_def)
  moreover have "getCacheKey (FileInput f) =
      [KStr ''ocr'', KStr (if isValidPdfFile f then ''file-document'' else ''file-image''),
       KStr (generateFileHash f), KNum (int (file_size f)), KNum 0]"
    by (simp add: ocrKeys_fileDocument_def ocrKeys_fileImage_def ocrKeys_all_def)
  ultimately show ?thesis
    by (simp only: generateFileHash_spec)
qed

theorem getCacheKey_file_content_addressed_witness:
  "getCacheKey (FileInput \<lparr>fname = ''a.pdf'', ftype = ''application/pdf'', lastModified = 1, content = [1, 2, 3]\<rparr>) =
   getCacheKey (FileInput \<lparr>fname = ''a.pdf'', ftype = ''application/pdf'', lastModified = 2, content = [1, 2, 3]\<rparr>) \<and>
   getCacheKey (FileInput \<lparr>fname = ''a.pdf'', ftype = ''application/pdf'', lastModified = 1, content = [1, 2, 3]\<rparr>) =
   [KStr ''ocr'', KStr ''file-document'', KStr ''a.pdf-3-si'', KNum 3, KNum 0]"
  using getCacheKey_file_content_addressed
    [of "\<lparr>fname = ''a.pdf'', ftype = ''application/pdf'', lastModified = 1, content = [1, 2, 3]\<rparr>"
        "\<lparr>fname = ''a.pdf'', ftype = ''application/pdf'', lastModified = 2, content = [1, 2, 3]\<rparr>"]
  by (auto simp: file_size_def isValidPdfFile_def pdfFileSchema_def MAX_FILE_SIZE_def
      rolling_hash_def wrap32_def toString36_def toString10_def
      toString_radix_small toString_radix_step digit_char_def)

text \<open>The claim as stated, without the media type: a file named \<open>scan\<close> of one byte is
  keyed as a document when its declared type is \<open>application/pdf\<close> and as an image when
  it is \<open>image/png\<close>.\<close>

theorem getCacheKey_file_media_type_counterexample:
  "fname \<lparr>fname = ''scan'', ftype = ''application/pdf'', lastModified = 0, content = [1]\<rparr> =
   fname \<lparr>fname = ''scan'', ftype = ''image/png'', lastModified = 0, content = [1]\<rparr> \<and>
   file_size \<lparr>fname = ''scan'', ftype = ''application/pdf'', lastModified = 0, content = [1]\<rparr> =
   file_size \<lparr>fname = ''scan'', ftype = ''image/png'', lastModified = 0, content = [1]\<rparr> \<and>
   content \<lparr>fname = ''scan'', ftype = ''application/pdf'', lastModified = 0, content = [1]\<rparr> =
   content \<lparr>fname = ''scan'', ftype = ''image/png'', lastModified = 0, content = [1]\<rparr> \<and>
   getCacheKey (FileInput \<lparr>fname = ''scan'', ftype = ''application/pdf'', lastModified = 0, content = [1]\<rparr>) \<noteq>
   getCacheKey (FileInput \<lparr>fname = ''scan'', ftype = ''image/png'', lastModified = 0, content = [1]\<rparr>)"
  by (simp add: file_size_def isValidPdfFile_def pdfFileSchema_def MAX_FILE_SIZE_def
      ocrKeys_fileDocument_def ocrKeys_fileImage_def ocrKeys_all_def
      endsWith_def toLowerCase_def PDF_EXTENSION_def toLowerCase_char_def Let_def)

section \<open>Properties of the matcher\<close>

text \<open>The bound on the rounds of a repetition is never reached: a repetition satisfies the
  recursive equation of the greedy loop.\<close>

lemma star_iter_fuel_Suc:
  "length (snd st) \<le> n \<Longrightarrow> star_iter f (Suc n) st = star_iter f n st"
proof (induction n arbitrary: st)
  case 0
  then show ?case by (simp add: progress_def)
next
  case (Suc n)
  have "(\<lambda>st'. if progress st st' then star_iter f (Suc n) st' else []) =
        (\<lambda>st'. if progress st st' then star_iter f n st' else [])"
  proof
    fix st'
    show "(if progress st st' then star_iter f (Suc n) st' else []) =
          (if progress st st' then star_iter f n st' else [])"
      using Suc.prems Suc.IH [of st'] by (simp add: progress_def)
  qed
  then show ?case by (simp del: star_iter.simps add: star_iter.simps(2) [of f "Suc n"] star_iter.simps(2) [of f n])
qed

lemma star_iter_fuel:
  "length (snd st) \<le> n \<Longrightarrow> star_iter f n st = star_iter f (length (snd st)) st"
proof (induction "n - length (snd st)" arbitrary: n)
  case 0
  then show ?case by simp
next
  case (Suc d)
  then obtain m where m: "n = Suc m" "length (snd st) \<le> m" "d = m - length (snd st)"
    by (cases n) auto
  then show ?case using Suc.hyps(1) [of m] star_iter_fuel_Suc [of st m f] by simp
qed

lemma rmatch_Star_unfold:
  "rmatch ic (Star r) st =
     concat (map (\<lambda>st'. if progress st st' then rmatch ic (Star r) st' else []) (rmatch ic r st)) @ [st]"
proof (cases "length (snd st)")
  case 0
  then show ?thesis by (simp add: progress_def)
next
  case (Suc n)
  have "(\<lambda>st'. if progress st st' then star_iter (rmatch ic r) n st' else []) =
        (\<lambda>st'. if progress st st' then rmatch ic (Star r) st' else [])"
  proof
    fix st'
    show "(if progress st st' then star_iter (rmatch ic r) n st' else []) =
        (if progress st st' then rmatch ic (Star r) st' else [])"
      using Suc star_iter_fuel [of st' n "rmatch ic r"] by (simp add: progress_def)
  qed
  with Suc show ?thesis by simp
qed

text \<open>A repetition of a character class runs over any prefix of code units of the class.\<close>

definition prev_after :: "char option \<Rightarrow> string \<Rightarrow> char option" where
  "prev_after p w = (if w = [] then p else Some (last w))"

definition cls_ok :: "bool \<Rightarrow> bool \<Rightarrow> citem list \<Rightarrow> char \<Rightarrow> bool" where
  "cls_ok ic neg items c = (list_ex (\<lambda>i. item_matches ic i c) items \<noteq> neg)"

lemma rmatch_Cls_Cons:
  "rmatch ic (Cls neg items) (p, c # cs) = (if cls_ok ic neg items c then [(Some c, cs)] else [])"
  by (simp add: cls_ok_def)

lemma rmatch_Star_self: "st \<in> set (rmatch ic (Star r) st)"
  by (subst rmatch_Star_unfold) simp

lemma rmatch_Star_step:
  assumes "st1 \<in> set (rmatch ic r st)" and "progress st st1"
    and "st2 \<in> set (rmatch ic (Star r) st1)"
  shows "st2 \<in> set (rmatch ic (Star r) st)"
  using assms by (subst rmatch_Star_unfold) force

lemma rmatch_Star_run:
  "\<forall>c\<in>set w. cls_ok ic neg items c \<Longrightarrow>
   (prev_after p w, rest) \<in> set (rmatch ic (Star (Cls neg items)) (p, w @ rest))"
proof (induction w arbitrary: p)
  case Nil
  then show ?case by (simp add: prev_after_def rmatch_Star_self del: rmatch.simps)
next
  case (Cons c w)
  have 1: "(Some c, w @ rest) \<in> set (rmatch ic (Cls neg items) (p, (c # w) @ rest))"
    using Cons.prems by (simp add: cls_ok_def)
  have 2: "progress (p, (c # w) @ rest) (Some c, w @ rest)"
    by (simp add: progress_def)
  have 3: "(prev_after (Some c) w, rest) \<in> set (rmatch ic (Star (Cls neg items)) (Some c, w @ rest))"
    using Cons by simp
  have "prev_after (Some c) w = prev_after p (c # w)"
    by (simp add: prev_after_def)
  with rmatch_Star_step [OF 1 2 3] show ?case by simp
qed

lemma rmatch_Plus_run:
  assumes "\<forall>c\<in>set w. cls_ok ic neg items c" and "w \<noteq> []"
  shows "(prev_after p w, rest) \<in> set (rmatch ic (Plus (Cls neg items)) (p, w @ rest))"
proof -
  from assms(2) obtain c w' where w: "w = c # w'" by (cases w) auto
  have "(prev_after (Some c) w', rest) \<in> set (rmatch ic (Star (Cls neg items)) (Some c, w' @ rest))"
    using assms(1) w by (intro rmatch_Star_run) simp
  moreover have "prev_after (Some c) w' = prev_after p w"
    by (simp add: prev_after_def w)
  moreover have "rmatch ic (Cls neg items) (p, w @ rest) = [(Some c, w' @ rest)]"
    using assms(1) w by (simp add: cls_ok_def)
  ultimately show ?thesis
    by (simp add: Plus_def del: rmatch.simps(1,4))
qed

lemma search_with_found:
  "m (p, s) \<noteq> [] \<Longrightarrow> search_with m p s \<noteq> None"
  by (cases s) (auto split: list.splits)

lemma regex_test_at_start:
  "rmatch ic r (None, s) \<noteq> [] \<Longrightarrow> regex_test ic r s"
  by (simp add: regex_test_def search_with_found)

definition isBase64Char :: "char \<Rightarrow> bool" where
  "isBase64Char c =
     (in_range CHR ''A'' CHR ''Z'' c \<or> in_range CHR ''a'' CHR ''z'' c \<or>
      in_range CHR ''0'' CHR ''9'' c \<or> c = CHR ''+'' \<or> c = CHR ''/'')"

lemma base64_class:
  "isBase64Char c \<Longrightarrow>
   cls_ok False False [Rng CHR ''A'' CHR ''Z'', Rng CHR ''a'' CHR ''z'', Rng CHR ''0'' CHR ''9'',
                            Ch CHR ''+'', Ch CHR ''/''] c"
  unfolding isBase64Char_def cls_ok_def by auto

lemma base64Pattern_complete:
  assumes "body \<noteq> []" and "\<forall>c\<in>set body. isBase64Char c" and "\<forall>c\<in>set pad. c = CHR ''=''"
  shows "regex_test False base64Pattern (body @ pad)"
proof -
  let ?C = "Cls False [Rng CHR ''A'' CHR ''Z'', Rng CHR ''a'' CHR ''z'', Rng CHR ''0'' CHR ''9'',
                            Ch CHR ''+'', Ch CHR ''/'']"
  have 1: "(prev_after None body, pad) \<in> set (rmatch False (Plus ?C) (None, body @ pad))"
    using assms(1,2) by (intro rmatch_Plus_run) (simp_all add: base64_class)
  have "(prev_after (prev_after None body) pad, []) \<in>
        set (rmatch False (Star (lit CHR ''='')) (prev_after None body, pad @ []))"
    unfolding lit_def using assms(3) by (intro rmatch_Star_run) (simp add: cls_ok_def)
  then have 2: "(prev_after (prev_after None body) pad, []) \<in>
        set (rmatch False (Star (lit CHR ''='')) (prev_after None body, pad))"
    by simp
  have "(prev_after (prev_after None body) pad, []) \<in> set (rmatch False base64Pattern (None, body @ pad))"
    unfolding base64Pattern_def seqs.simps
    using 1 2 by (simp del: rmatch.simps(1,4)) force
  then show ?thesis
    by (intro regex_test_at_start) auto
qed

section \<open>Properties of the classifier\<close>

lemma trim_blank: "\<forall>c\<in>set s. isWhiteSpace c \<Longrightarrow> trim s = []"
  by (auto simp: trim_def dest: set_dropWhileD)

lemma isDataUrl_empty: "\<not> isDataUrl []"
  by (simp add: isDataUrl_def dataUrlSchema_def regex_test_def dataUrlFactors_def str_def lit_def
      Plus_def)

text \<open>
  C8. An input that is empty or holds white space only is classified as unknown/unknown,
  with the empty string for value. \<open>detectInputType\<close> has no path that throws: its
  validators are \<open>safeParse\<close> calls and the URL constructor is called under \<open>try\<close>, so the
  model is a total function to \<open>DetectedInput\<close>. The platform's URL parser is a parameter;
  the theorem needs of it that \<open>new URL("")\<close> throws.
\<close>

theorem detectInputType_blank:
  assumes "\<forall>c\<in>set input. isWhiteSpace c" and "new_URL_protocol pf [] = None"
  shows "detectInputType pf input =
    \<lparr>inputType = IT_unknown, contentType = CT_unknown, dvalue = []\<rparr>"
proof -
  have "trim input = []" using assms(1) by (rule trim_blank)
  moreover have "\<not> validateUrl pf []"
    using assms(2) by (simp add: validateUrl_def urlSchema_def)
  ultimately show ?thesis
    by (simp add: detectInputType_def isDataUrl_empty)
qed

theorem detectInputType_blank_witness:
  "detectInputType \<lparr>zod_string_url = (\<lambda>s. s \<noteq> []), new_URL_protocol = (\<lambda>s. None)\<rparr> [] =
     \<lparr>inputType = IT_unknown, contentType = CT_unknown, dvalue = []\<rparr> \<and>
   detectInputType \<lparr>zod_string_url = (\<lambda>s. s \<noteq> []), new_URL_protocol = (\<lambda>s. None)\<rparr>
       [CHR '' '', CHR 0x09, CHR 0x0A, CHR '' ''] =
     \<lparr>inputType = IT_unknown, contentType = CT_unknown, dvalue = []\<rparr>"
  using
    detectInputType_blank [of "[]" "\<lparr>zod_string_url = (\<lambda>s. s \<noteq> []), new_URL_protocol = (\<lambda>s. None)\<rparr>"]
    detectInputType_blank [of "[CHR '' '', CHR 0x09, CHR 0x0A, CHR '' '']"
       "\<lparr>zod_string_url = (\<lambda>s. s \<noteq> []), new_URL_protocol = (\<lambda>s. None)\<rparr>"]
  by (simp add: isWhiteSpace_def)

text \<open>
  C7. A trimmed input that is neither a URL nor a data URL, is longer than 50 code units
  and consists of base64 characters followed by any number of \<open>=\<close> is classified as
  base64: a PDF when it starts with \<open>JVBERi0\<close>, an image when it starts with
  \<open>iVBORw0KGgo\<close>, \<open>/9j/\<close> or \<open>R0lGOD\<close>, and of unknown content otherwise.
\<close>

theorem detectInputType_raw_base64:
  assumes "t = trim input" and "\<not> validateUrl pf t" and "\<not> isDataUrl t" and "50 < length t"
    and "t = body @ pad" and "body \<noteq> []" and "\<forall>c\<in>set body. isBase64Char c"
    and "\<forall>c\<in>set pad. c = CHR ''=''"
  shows "detectInputType pf input =
    \<lparr>inputType = IT_base64,
     contentType =
       (if startsWith t ''JVBERi0'' then CT_pdf
        else if startsWith t ''iVBORw0KGgo'' \<or> startsWith t ''/9j/'' \<or> startsWith t ''R0lGOD''
        then CT_image else CT_unknown),
     dvalue = t\<rparr>"
proof -
  have "regex_test False base64Pattern t"
    unfolding assms(5) using assms(6-8) by (rule base64Pattern_complete)
  then show ?thesis
    using assms(1-4) by (simp add: detectInputType_def)
qed

lemma sample_trim: "trim '' JVBERi0xLjQKJVBERi0xLjQKJVBERi0xLjQKJVBERi0xLjQKJVBERi0xLjQK== '' =
  ''JVBERi0xLjQKJVBERi0xLjQKJVBERi0xLjQKJVBERi0xLjQKJVBERi0xLjQK==''"
  by code_simp

lemma sample_not_data_url: "\<not> isDataUrl ''JVBERi0xLjQKJVBERi0xLjQKJVBERi0xLjQKJVBERi0xLjQKJVBERi0xLjQK==''"
  by code_simp

lemma sample_body_alphabet: "\<forall>c\<in>set ''JVBERi0xLjQKJVBERi0xLjQKJVBERi0xLjQKJVBERi0xLjQKJVBERi0xLjQK''. isBase64Char c"
  by code_simp

lemma no_url_platform: "\<not> validateUrl \<lparr>zod_string_url = (\<lambda>s. False), new_URL_protocol = (\<lambda>s. None)\<rparr> s"
  by (simp add: validateUrl_def urlSchema_def)

lemma sample_length: "50 < length ''JVBERi0xLjQKJVBERi0xLjQKJVBERi0xLjQKJVBERi0xLjQKJVBERi0xLjQK==''"
  by code_simp

lemma sample_split: "''JVBERi0xLjQKJVBERi0xLjQKJVBERi0xLjQKJVBERi0xLjQKJVBERi0xLjQK=='' =
   ''JVBERi0xLjQKJVBERi0xLjQKJVBERi0xLjQKJVBERi0xLjQKJVBERi0xLjQK'' @ ''==''"
  by code_simp

lemma sample_body_nonempty: "''JVBERi0xLjQKJVBERi0xLjQKJVBERi0xLjQKJVBERi0xLjQKJVBERi0xLjQK'' \<noteq> []"
  by simp

lemma sample_pad: "\<forall>c\<in>set ''==''. c = CHR ''=''"
  by simp

lemma sample_pdf_signature: "startsWith ''JVBERi0xLjQKJVBERi0xLjQKJVBERi0xLjQKJVBERi0xLjQKJVBERi0xLjQK=='' ''JVBERi0''"
  by code_simp

theorem detectInputType_raw_base64_witness:
  "detectInputType \<lparr>zod_string_url = (\<lambda>s. False), new_URL_protocol = (\<lambda>s. None)\<rparr>
     '' JVBERi0xLjQKJVBERi0xLjQKJVBERi0xLjQKJVBERi0xLjQKJVBERi0xLjQK== '' =
   \<lparr>inputType = IT_base64, contentType = CT_pdf,
    dvalue = ''JVBERi0xLjQKJVBERi0xLjQKJVBERi0xLjQKJVBERi0xLjQKJVBERi0xLjQK==''\<rparr>"
  using detectInputType_raw_base64 [OF sample_trim [symmetric] no_url_platform sample_not_data_url sample_length sample_split sample_body_nonempty sample_body_alphabet sample_pad]
  by (simp only: sample_pdf_signature if_True)

section \<open>Patterns of literal words\<close>

text \<open>A pattern built from literal code units by sequence, alternative and option matches
  the words it spells, and nothing else.\<close>

fun ci_prefix :: "bool \<Rightarrow> string \<Rightarrow> string \<Rightarrow> bool" where
  "ci_prefix ic [] s = True"
| "ci_prefix ic (d # w) [] = False"
| "ci_prefix ic (d # w) (c # s) = (item_matches ic (Ch d) c \<and> ci_prefix ic w s)"

fun wordy :: "regex \<Rightarrow> bool" where
  "wordy (Cls neg items) = (\<not> neg \<and> (\<exists>d. items = [Ch d]))"
| "wordy (Seq a b) = (wordy a \<and> wordy b)"
| "wordy (Alt a b) = (wordy a \<and> wordy b)"
| "wordy (Opt a) = wordy a"
| "wordy Eps = True"
| "wordy r = False"

fun words :: "regex \<Rightarrow> string list" where
  "words (Cls neg items) = (case items of [Ch d] \<Rightarrow> [[d]] | _ \<Rightarrow> [])"
| "words (Seq a b) = concat (map (\<lambda>u. map (\<lambda>v. u @ v) (words b)) (words a))"
| "words (Alt a b) = words a @ words b"
| "words (Opt a) = words a @ [[]]"
| "words Eps = [[]]"
| "words r = []"

lemma ci_prefix_append:
  "ci_prefix ic (u @ v) s = (ci_prefix ic u s \<and> ci_prefix ic v (drop (length u) s))"
  by (induction ic u s rule: ci_prefix.induct) auto

lemma ci_prefix_length: "ci_prefix ic w s \<Longrightarrow> length w \<le> length s"
  by (induction ic w s rule: ci_prefix.induct) auto

lemma rmatch_wordy:
  "wordy r \<Longrightarrow>
   snd ` set (rmatch ic r (p, s)) = {drop (length w) s | w. w \<in> set (words r) \<and> ci_prefix ic w s}"
proof (induction r arbitrary: p s)
  case (Cls neg items)
  then obtain d where d: "items = [Ch d]" "\<not> neg" by auto
  show ?case
  proof (cases s)
    case Nil
    then show ?thesis using d by simp
  next
    case (Cons c cs)
    then show ?thesis using d by auto
  qed
next
  case (Seq a b)
  then have a: "\<And>p s. snd ` set (rmatch ic a (p, s)) =
      {drop (length w) s | w. w \<in> set (words a) \<and> ci_prefix ic w s}"
    and b: "\<And>p s. snd ` set (rmatch ic b (p, s)) =
      {drop (length w) s | w. w \<in> set (words b) \<and> ci_prefix ic w s}"
    by simp_all
  have "snd ` set (rmatch ic (Seq a b) (p, s)) =
        (\<Union>st1\<in>set (rmatch ic a (p, s)). snd ` set (rmatch ic b (fst st1, snd st1)))"
    by (simp add: image_UN)
  also have "\<dots> = (\<Union>st1\<in>set (rmatch ic a (p, s)).
        {drop (length v) (snd st1) | v. v \<in> set (words b) \<and> ci_prefix ic v (snd st1)})"
    by (simp only: b)
  also have "\<dots> = (\<Union>s1\<in>snd ` set (rmatch ic a (p, s)).
        {drop (length v) s1 | v. v \<in> set (words b) \<and> ci_prefix ic v s1})"
    by (simp add: image_def) blast
  also have "\<dots> = (\<Union>s1\<in>{drop (length w) s | w. w \<in> set (words a) \<and> ci_prefix ic w s}.
        {drop (length v) s1 | v. v \<in> set (words b) \<and> ci_prefix ic v s1})"
    by (simp only: a)
  also have "\<dots> = {drop (length w) s | w. w \<in> set (words (Seq a b)) \<and> ci_prefix ic w s}"
    (is "?L = ?R")
  proof (rule set_eqI, rule iffI)
    fix x assume "x \<in> ?L"
    then obtain u v where uv: "u \<in> set (words a)" "ci_prefix ic u s" "v \<in> set (words b)"
      "ci_prefix ic v (drop (length u) s)" "x = drop (length v) (drop (length u) s)"
      by blast
    then have "ci_prefix ic (u @ v) s" "x = drop (length (u @ v)) s"
      by (simp_all add: ci_prefix_append add.commute)
    moreover have "u @ v \<in> set (words (Seq a b))"
      using uv(1,3) by auto
    ultimately show "x \<in> ?R" by blast
  next
    fix x assume "x \<in> ?R"
    then obtain w where w: "w \<in> set (words (Seq a b))" "ci_prefix ic w s" "x = drop (length w) s"
      by blast
    then obtain u v where uv: "u \<in> set (words a)" "v \<in> set (words b)" "w = u @ v"
      by auto
    with w have "ci_prefix ic u s" "ci_prefix ic v (drop (length u) s)"
      "x = drop (length v) (drop (length u) s)"
      by (simp_all add: ci_prefix_append add.commute)
    with uv show "x \<in> ?L" by blast
  qed
  finally show ?case .
next
  case (Alt a b)
  then show ?case by (auto simp: image_Un)
next
  case (Opt a)
  then have a: "snd ` set (rmatch ic a (p, s)) =
      {drop (length w) s | w. w \<in> set (words a) \<and> ci_prefix ic w s}"
    by simp
  have "snd ` set (rmatch ic (Opt a) (p, s)) \<subseteq> insert s (snd ` set (rmatch ic a (p, s)))"
    by auto
  moreover have "snd ` set (rmatch ic a (p, s)) \<subseteq> snd ` set (rmatch ic (Opt a) (p, s))"
  proof
    fix s1 assume "s1 \<in> snd ` set (rmatch ic a (p, s))"
    then obtain q where q: "(q, s1) \<in> set (rmatch ic a (p, s))" by auto
    from rmatch_suffix [OF q] obtain m where m: "s = m @ s1" by auto
    show "s1 \<in> snd ` set (rmatch ic (Opt a) (p, s))"
    proof (cases "m = []")
      case True
      with m show ?thesis by (simp add: image_def) 
    next
      case False
      with m have "progress (p, s) (q, s1)" by (simp add: progress_def)
      with q show ?thesis by (force simp: image_def)
    qed
  qed
  moreover have "s \<in> snd ` set (rmatch ic (Opt a) (p, s))"
    by (simp add: image_def)
  ultimately have "snd ` set (rmatch ic (Opt a) (p, s)) = insert s (snd ` set (rmatch ic a (p, s)))"
    by blast
  moreover have "{drop (length w) s | w. w \<in> set (words (Opt a)) \<and> ci_prefix ic w s} =
      insert s {drop (length w) s | w. w \<in> set (words a) \<and> ci_prefix ic w s}"
    (is "?L = ?R")
  proof (rule set_eqI, rule iffI)
    fix x assume "x \<in> ?L"
    then obtain w where "w = [] \<or> w \<in> set (words a)" "ci_prefix ic w s" "x = drop (length w) s"
      by auto
    then show "x \<in> ?R" by auto
  next
    fix x assume "x \<in> ?R"
    then consider "x = s" | w where "w \<in> set (words a)" "ci_prefix ic w s" "x = drop (length w) s"
      by auto
    then show "x \<in> ?L"
    proof cases
      case 1
      then have "[] \<in> set (words (Opt a))" "ci_prefix ic [] s" "x = drop (length ([] :: string)) s"
        by simp_all
      then show ?thesis by blast
    next
      case 2
      then have "w \<in> set (words (Opt a))" by simp
      with 2 show ?thesis by blast
    qed
  qed
  ultimately show ?case unfolding a by simp
qed simp_all

definition prev_at :: "char option \<Rightarrow> string \<Rightarrow> nat \<Rightarrow> char option" where
  "prev_at p s i = (if i = 0 then p else Some (s ! (i - 1)))"

lemma search_with_iff:
  "search_with m p s \<noteq> None \<longleftrightarrow> (\<exists>i\<le>length s. m (prev_at p s i, drop i s) \<noteq> [])"
proof (induction s arbitrary: p)
  case Nil
  then show ?case by (auto simp: prev_at_def split: list.splits)
next
  case (Cons c cs)
  have "search_with m p (c # cs) \<noteq> None \<longleftrightarrow>
        m (p, c # cs) \<noteq> [] \<or> search_with m (Some c) cs \<noteq> None"
    by (auto split: list.splits option.splits)
  also have "\<dots> \<longleftrightarrow> m (p, c # cs) \<noteq> [] \<or> (\<exists>i\<le>length cs. m (prev_at (Some c) cs i, drop i cs) \<noteq> [])"
    by (simp only: Cons.IH)
  also have "\<dots> \<longleftrightarrow> (\<exists>i\<le>length (c # cs). m (prev_at p (c # cs) i, drop i (c # cs)) \<noteq> [])"
    (is "?L \<longleftrightarrow> ?R")
  proof
    assume ?L
    then show ?R
    proof
      assume "m (p, c # cs) \<noteq> []"
      then have "m (prev_at p (c # cs) 0, drop 0 (c # cs)) \<noteq> []" by (simp add: prev_at_def)
      then show ?R by blast
    next
      assume "\<exists>i\<le>length cs. m (prev_at (Some c) cs i, drop i cs) \<noteq> []"
      then obtain i where i: "i \<le> length cs" "m (prev_at (Some c) cs i, drop i cs) \<noteq> []" by blast
      have "prev_at p (c # cs) (Suc i) = prev_at (Some c) cs i"
        by (cases i) (simp_all add: prev_at_def)
      with i have "Suc i \<le> length (c # cs)" "m (prev_at p (c # cs) (Suc i), drop (Suc i) (c # cs)) \<noteq> []"
        by simp_all
      then show ?R by blast
    qed
  next
    assume ?R
    then obtain i where i: "i \<le> length (c # cs)" "m (prev_at p (c # cs) i, drop i (c # cs)) \<noteq> []"
      by blast
    show ?L
    proof (cases i)
      case 0
      with i show ?thesis by (simp add: prev_at_def)
    next
      case (Suc j)
      have "prev_at p (c # cs) (Suc j) = prev_at (Some c) cs j"
        by (cases j) (simp_all add: prev_at_def)
      with i Suc have "j \<le> length cs" "m (prev_at (Some c) cs j, drop j cs) \<noteq> []"
        by simp_all
      then show ?thesis by blast
    qed
  qed
  finally show ?case .
qed

lemma concat_map_assoc:
  "concat (map g (concat (map f xs))) = concat (map (\<lambda>x. concat (map g (f x))) xs)"
  by (induction xs) simp_all

lemma rmatch_Seq_assoc: "rmatch ic (Seq a (Seq b c)) st = rmatch ic (Seq (Seq a b) c) st"
proof -
  have "rmatch ic (Seq b c) = (\<lambda>x. concat (map (rmatch ic c) (rmatch ic b x)))"
    by (rule ext) simp
  then show ?thesis by (simp add: concat_map_assoc)
qed

lemma rmatch_Seq_nonempty:
  "rmatch ic (Seq a b) st \<noteq> [] \<longleftrightarrow> (\<exists>st1\<in>set (rmatch ic a st). rmatch ic b st1 \<noteq> [])"
  by simp

definition tail_ok :: "bool \<Rightarrow> string \<Rightarrow> bool" where
  "tail_ok ic t = (t = [] \<or> ci_prefix ic ''?'' t)"

lemma rmatch_query_or_end:
  "rmatch ic (Alt (lit CHR ''?'') Eol) (q, t) \<noteq> [] \<longleftrightarrow> tail_ok ic t"
  by (cases t) (simp_all add: lit_def tail_ok_def)

definition image_words :: "string list" where
  "image_words = [''.png'', ''.jpeg'', ''.jpg'', ''.avif'', ''.webp'', ''.gif'']"

lemma words_image: "words (Seq (lit CHR ''.'') (alts imageExtensions)) = image_words"
  by (simp add: imageExtensions_def str_def lit_def image_words_def)

lemma wordy_image: "wordy (Seq (lit CHR ''.'') (alts imageExtensions))"
  by (simp add: imageExtensions_def str_def lit_def)

lemma imageUrlPattern_here:
  "rmatch ic imageUrlPattern (p, s) \<noteq> [] \<longleftrightarrow>
   (\<exists>w\<in>set image_words. ci_prefix ic w s \<and> tail_ok ic (drop (length w) s))"
proof -
  let ?core = "Seq (lit CHR ''.'') (alts imageExtensions)"
  let ?tail = "Alt (lit CHR ''?'') Eol"
  have "rmatch ic imageUrlPattern (p, s) = rmatch ic (Seq ?core ?tail) (p, s)"
    unfolding imageUrlPattern_def seqs.simps by (rule rmatch_Seq_assoc)
  then have "rmatch ic imageUrlPattern (p, s) \<noteq> [] \<longleftrightarrow>
      (\<exists>st1\<in>set (rmatch ic ?core (p, s)). rmatch ic ?tail (fst st1, snd st1) \<noteq> [])"
    by (simp only: rmatch_Seq_nonempty prod.collapse)
  also have "\<dots> \<longleftrightarrow> (\<exists>st1\<in>set (rmatch ic ?core (p, s)). tail_ok ic (snd st1))"
    by (simp only: rmatch_query_or_end)
  also have "\<dots> \<longleftrightarrow> (\<exists>t\<in>snd ` set (rmatch ic ?core (p, s)). tail_ok ic t)"
    by blast
  also have "\<dots> \<longleftrightarrow> (\<exists>t\<in>{drop (length w) s | w. w \<in> set (words ?core) \<and> ci_prefix ic w s}.
      tail_ok ic t)"
    by (simp only: rmatch_wordy [OF wordy_image])
  also have "\<dots> \<longleftrightarrow> (\<exists>w\<in>set image_words. ci_prefix ic w s \<and> tail_ok ic (drop (length w) s))"
    unfolding words_image by blast
  finally show ?thesis .
qed

text \<open>On lower-cased text the flag \<open>i\<close> makes no difference to a pattern of lower-case
  letters, dots and question marks.\<close>

definition no_upper :: "char \<Rightarrow> bool" where
  "no_upper c = (\<not> (65 \<le> (of_char c :: nat) \<and> (of_char c :: nat) \<le> 90))"

definition plain :: "char \<Rightarrow> bool" where
  "plain d = (no_upper d \<and> (of_char d :: nat) < 128)"

lemma of_char_lt_256: "(of_char c :: nat) < 256"
proof -
  have "(of_char c :: nat) mod 256 < 256" by simp
  then show ?thesis by (simp only: of_char_mod_256)
qed

lemma of_char_canonicalize:
  "(of_char (canonicalize c) :: nat) =
     (if (97 \<le> (of_char c :: nat) \<and> (of_char c :: nat) \<le> 122) \<or>
         (224 \<le> (of_char c :: nat) \<and> (of_char c :: nat) \<le> 254 \<and> (of_char c :: nat) \<noteq> 247)
      then of_char c - 32 else of_char c)"
  using of_char_lt_256 [of c] by (auto simp: canonicalize_def Let_def)

lemma of_char_toLowerCase:
  "(of_char (toLowerCase_char c) :: nat) =
     (if (65 \<le> (of_char c :: nat) \<and> (of_char c :: nat) \<le> 90) \<or>
         (192 \<le> (of_char c :: nat) \<and> (of_char c :: nat) \<le> 222 \<and> (of_char c :: nat) \<noteq> 215)
      then of_char c + 32 else of_char c)"
  using of_char_lt_256 [of c] by (auto simp: toLowerCase_char_def Let_def)

lemma toLowerCase_no_upper: "no_upper (toLowerCase_char c)"
  unfolding no_upper_def of_char_toLowerCase by auto

lemma canonicalize_eq_plain:
  assumes "no_upper c" and "plain d"
  shows "canonicalize c = canonicalize d \<longleftrightarrow> c = d"
proof -
  have "canonicalize c = canonicalize d \<longleftrightarrow>
        (of_char (canonicalize c) :: nat) = of_char (canonicalize d)"
    by simp
  also have "\<dots> \<longleftrightarrow> (of_char c :: nat) = of_char d"
    using assms unfolding of_char_canonicalize no_upper_def plain_def
    by (auto simp del: of_char_eq_iff)
  also have "\<dots> \<longleftrightarrow> c = d" by simp
  finally show ?thesis .
qed

text \<open>The test of a range under the flag \<open>i\<close> is the one of the language definition: some
  code unit of the range has the canonical form of the input's.\<close>

lemma canonicalize_cases:
  "canonicalize a = canonicalize c \<Longrightarrow> a = c \<or> a = toLowerCase_char c \<or> a = canonicalize c"
proof -
  assume "canonicalize a = canonicalize c"
  then have "(of_char (canonicalize a) :: nat) = of_char (canonicalize c)" by simp
  then have "(of_char a :: nat) = of_char c \<or> (of_char a :: nat) = of_char (toLowerCase_char c) \<or>
      (of_char a :: nat) = of_char (canonicalize c)"
    unfolding of_char_canonicalize of_char_toLowerCase
    using of_char_lt_256 [of a] of_char_lt_256 [of c]
    by (auto simp del: of_char_eq_iff split: if_splits)
  then show ?thesis by simp
qed

lemma canonicalize_variants:
  "canonicalize (toLowerCase_char c) = canonicalize c" "canonicalize (canonicalize c) = canonicalize c"
proof -
  have "(of_char (canonicalize (toLowerCase_char c)) :: nat) = of_char (canonicalize c)"
    unfolding of_char_canonicalize of_char_toLowerCase
    using of_char_lt_256 [of c] by (auto simp del: of_char_eq_iff)
  then show "canonicalize (toLowerCase_char c) = canonicalize c" by simp
  have "(of_char (canonicalize (canonicalize c)) :: nat) = of_char (canonicalize c)"
    unfolding of_char_canonicalize
    using of_char_lt_256 [of c] by (auto simp del: of_char_eq_iff)
  then show "canonicalize (canonicalize c) = canonicalize c" by simp
qed

lemma range_ignore_case:
  "item_matches True (Rng lo hi) c \<longleftrightarrow> (\<exists>a. in_range lo hi a \<and> canonicalize a = canonicalize c)"
proof
  assume "item_matches True (Rng lo hi) c"
  then consider "in_range lo hi c" | "in_range lo hi (toLowerCase_char c)"
    | "in_range lo hi (canonicalize c)"
    by auto
  then show "\<exists>a. in_range lo hi a \<and> canonicalize a = canonicalize c"
    using canonicalize_variants by cases blast+
next
  assume "\<exists>a. in_range lo hi a \<and> canonicalize a = canonicalize c"
  then obtain a where "in_range lo hi a" "canonicalize a = canonicalize c" by blast
  with canonicalize_cases [of a c] show "item_matches True (Rng lo hi) c" by auto
qed

lemma ci_prefix_plain:
  "\<forall>c\<in>set s. no_upper c \<Longrightarrow> \<forall>d\<in>set w. plain d \<Longrightarrow>
   ci_prefix True w s \<longleftrightarrow> take (length w) s = w"
proof (induction True w s rule: ci_prefix.induct)
  case (1 s)
  then show ?case by simp
next
  case (2 d w)
  then show ?case by simp
next
  case (3 d w c s)
  then show ?case by (auto simp: canonicalize_eq_plain)
qed

lemma includes_str_iff:
  "includes_str s w \<longleftrightarrow> (\<exists>i\<le>length s. take (length w) (drop i s) = w)"
proof (induction s)
  case Nil
  then show ?case by auto
next
  case (Cons c s)
  have "(\<exists>i\<le>length (c # s). take (length w) (drop i (c # s)) = w) \<longleftrightarrow>
        take (length w) (c # s) = w \<or> (\<exists>i\<le>length s. take (length w) (drop i s) = w)"
    (is "?L \<longleftrightarrow> ?R")
  proof
    assume ?L
    then obtain i where i: "i \<le> length (c # s)" "take (length w) (drop i (c # s)) = w" by blast
    show ?R
    proof (cases i)
      case 0
      with i show ?thesis by simp
    next
      case (Suc j)
      with i have "j \<le> length s" "take (length w) (drop j s) = w" by simp_all
      then show ?thesis by blast
    qed
  next
    assume ?R
    then show ?L
    proof
      assume "take (length w) (c # s) = w"
      then have "take (length w) (drop 0 (c # s)) = w" by simp
      then show ?L by blast
    next
      assume "\<exists>i\<le>length s. take (length w) (drop i s) = w"
      then obtain i where "i \<le> length s" "take (length w) (drop i s) = w" by blast
      then have "Suc i \<le> length (c # s)" "take (length w) (drop (Suc i) (c # s)) = w" by simp_all
      then show ?L by blast
    qed
  qed
  with Cons show ?case by (simp add: startsWith_def)
qed

lemma endsWith_iff: "endsWith s w \<longleftrightarrow> (\<exists>i\<le>length s. drop i s = w)"
proof
  assume "endsWith s w"
  then have "length s - length w \<le> length s" "drop (length s - length w) s = w"
    by (simp_all add: endsWith_def)
  then show "\<exists>i\<le>length s. drop i s = w" by blast
next
  assume "\<exists>i\<le>length s. drop i s = w"
  then obtain i where i: "i \<le> length s" "drop i s = w" by blast
  then have "length w = length s - i" by auto
  with i have "length w \<le> length s" "length s - length w = i" by simp_all
  with i show "endsWith s w" by (simp add: endsWith_def)
qed

section \<open>Properties of the classifier on URLs\<close>

text \<open>A lower-cased URL ends in an extension when it ends with a dot and the extension, or
  holds them followed by the \<open>?\<close> of a query string.\<close>

definition url_ends_in :: "string \<Rightarrow> string \<Rightarrow> bool" where
  "url_ends_in u ext = (endsWith u (''.'' @ ext) \<or> includes_str u (''.'' @ ext @ ''?''))"

lemma image_words_plain: "w \<in> set image_words \<Longrightarrow> \<forall>d\<in>set w. plain d"
  by (auto simp: image_words_def plain_def no_upper_def)

lemma word_then_tail:
  assumes "\<forall>c\<in>set t. no_upper c" and "\<forall>d\<in>set w. plain d"
  shows "ci_prefix True w t \<and> tail_ok True (drop (length w) t) \<longleftrightarrow>
         t = w \<or> take (length (w @ ''?'')) t = w @ ''?''"
proof -
  let ?n = "length w"
  have low: "\<forall>c\<in>set (drop ?n t). no_upper c"
    using assms(1) by (meson in_set_dropD)
  have q: "\<forall>d\<in>set ''?''. plain d"
    by (simp add: plain_def no_upper_def)
  have 1: "ci_prefix True w t \<longleftrightarrow> take ?n t = w"
    using assms by (rule ci_prefix_plain)
  have 2: "tail_ok True (drop ?n t) \<longleftrightarrow> drop ?n t = [] \<or> take 1 (drop ?n t) = ''?''"
    unfolding tail_ok_def using ci_prefix_plain [OF low q] by simp
  have 3: "take ?n t = w \<and> drop ?n t = [] \<longleftrightarrow> t = w"
    by (metis append_Nil2 append_take_drop_id drop_all order_refl take_all)
  have 4: "take ?n t = w \<and> take 1 (drop ?n t) = ''?'' \<longleftrightarrow> take (?n + 1) t = w @ ''?''"
  proof
    assume "take ?n t = w \<and> take 1 (drop ?n t) = ''?''"
    then show "take (?n + 1) t = w @ ''?''" by (simp only: take_add)
  next
    assume a: "take (?n + 1) t = w @ ''?''"
    have "take ?n t = take ?n (take (?n + 1) t)" by simp
    also have "\<dots> = w" by (simp only: a) simp
    finally have "take ?n t = w" .
    moreover have "take (?n + 1) t = take ?n t @ take 1 (drop ?n t)" by (rule take_add)
    ultimately have "take 1 (drop ?n t) = ''?''" using a by simp
    with \<open>take ?n t = w\<close> show "take ?n t = w \<and> take 1 (drop ?n t) = ''?''" by simp
  qed
  show ?thesis
    unfolding 1 2 using 3 4 by auto
qed

lemma image_pattern_iff:
  assumes "\<forall>c\<in>set s. no_upper c"
  shows "regex_test True imageUrlPattern s \<longleftrightarrow>
    list_ex (url_ends_in s) [''png'', ''jpg'', ''jpeg'', ''avif'', ''webp'', ''gif'']"
proof -
  have step: "rmatch True imageUrlPattern (p, drop i s) \<noteq> [] \<longleftrightarrow>
      (\<exists>w\<in>set image_words. drop i s = w \<or> take (length (w @ ''?'')) (drop i s) = w @ ''?'')"
    for p i
  proof -
    have low: "\<forall>c\<in>set (drop i s). no_upper c"
      using assms by (meson in_set_dropD)
    show ?thesis
      unfolding imageUrlPattern_here
      using word_then_tail [OF low image_words_plain] by blast
  qed
  have "regex_test True imageUrlPattern s \<longleftrightarrow>
      (\<exists>i\<le>length s. \<exists>w\<in>set image_words.
         drop i s = w \<or> take (length (w @ ''?'')) (drop i s) = w @ ''?'')"
    unfolding regex_test_def search_with_iff step ..
  also have "\<dots> \<longleftrightarrow> (\<exists>w\<in>set image_words. endsWith s w \<or> includes_str s (w @ ''?''))"
    unfolding endsWith_iff includes_str_iff by blast
  also have "\<dots> \<longleftrightarrow> list_ex (url_ends_in s) [''png'', ''jpg'', ''jpeg'', ''avif'', ''webp'', ''gif'']"
    by (simp add: image_words_def url_ends_in_def) blast
  finally show ?thesis .
qed

lemma toLowerCase_low: "\<forall>c\<in>set (toLowerCase s). no_upper c"
  by (simp add: toLowerCase_def toLowerCase_no_upper)

lemma detectInputType_url_general:
  "validateUrl pf (trim input) \<Longrightarrow>
      detectInputType pf input =
        \<lparr>inputType = IT_url,
         contentType =
           (if url_ends_in (toLowerCase (trim input)) ''pdf'' then CT_pdf
            else if list_ex (url_ends_in (toLowerCase (trim input)))
                      [''png'', ''jpg'', ''jpeg'', ''avif'', ''webp'', ''gif'']
            then CT_image else CT_unknown),
         dvalue = trim input\<rparr>"
  using image_pattern_iff [OF toLowerCase_low, of "trim input"]
  by (simp add: detectInputType_def url_ends_in_def Let_def)

lemma sample_url_pdf:
  "trim ''https://a.com/x.pdf'' = ''https://a.com/x.pdf''"
  "url_ends_in (toLowerCase ''https://a.com/x.pdf'') ''pdf''"
  by code_simp+

lemma sample_url_png:
  "trim ''https://a.com/x.png?q=1'' = ''https://a.com/x.png?q=1''"
  "\<not> url_ends_in (toLowerCase ''https://a.com/x.png?q=1'') ''pdf''"
  "list_ex (url_ends_in (toLowerCase ''https://a.com/x.png?q=1''))
     [''png'', ''jpg'', ''jpeg'', ''avif'', ''webp'', ''gif'']"
  by code_simp+

lemma sample_url_plain:
  "trim ''https://a.com/x'' = ''https://a.com/x''"
  "\<not> url_ends_in (toLowerCase ''https://a.com/x'') ''pdf''"
  "\<not> list_ex (url_ends_in (toLowerCase ''https://a.com/x''))
     [''png'', ''jpg'', ''jpeg'', ''avif'', ''webp'', ''gif'']"
  by code_simp+

text \<open>
  C6. An input whose trimmed text the platform takes for an http(s) URL is classified as a
  URL. Its content is a PDF when the lower-cased URL ends in \<open>.pdf\<close>, a query string
  allowed after it (the URL holds \<open>.pdf?\<close>); an image when it ends in one of \<open>.png .jpg
  .jpeg .avif .webp .gif\<close>, a query string allowed after it; and unknown otherwise. The
  clauses are read in their order, as the source tests them. The three URLs of the
  specification are classified as it says.
\<close>

theorem detectInputType_url:
  "(validateUrl pf (trim input) \<longrightarrow>
      detectInputType pf input =
        \<lparr>inputType = IT_url,
         contentType =
           (if url_ends_in (toLowerCase (trim input)) ''pdf'' then CT_pdf
            else if list_ex (url_ends_in (toLowerCase (trim input)))
                      [''png'', ''jpg'', ''jpeg'', ''avif'', ''webp'', ''gif'']
            then CT_image else CT_unknown),
         dvalue = trim input\<rparr>) \<and>
   (validateUrl pf ''https://a.com/x.pdf'' \<longrightarrow>
      detectInputType pf ''https://a.com/x.pdf'' =
        \<lparr>inputType = IT_url, contentType = CT_pdf, dvalue = ''https://a.com/x.pdf''\<rparr>) \<and>
   (validateUrl pf ''https://a.com/x.png?q=1'' \<longrightarrow>
      detectInputType pf ''https://a.com/x.png?q=1'' =
        \<lparr>inputType = IT_url, contentType = CT_image, dvalue = ''https://a.com/x.png?q=1''\<rparr>) \<and>
   (validateUrl pf ''https://a.com/x'' \<longrightarrow>
      detectInputType pf ''https://a.com/x'' =
        \<lparr>inputType = IT_url, contentType = CT_unknown, dvalue = ''https://a.com/x''\<rparr>)"
proof (intro conjI impI)
  assume "validateUrl pf (trim input)"
  then show "detectInputType pf input =
        \<lparr>inputType = IT_url,
         contentType =
           (if url_ends_in (toLowerCase (trim input)) ''pdf'' then CT_pdf
            else if list_ex (url_ends_in (toLowerCase (trim input)))
                      [''png'', ''jpg'', ''jpeg'', ''avif'', ''webp'', ''gif'']
            then CT_image else CT_unknown),
         dvalue = trim input\<rparr>"
    by (rule detectInputType_url_general)
next
  assume "validateUrl pf ''https://a.com/x.pdf''"
  then show "detectInputType pf ''https://a.com/x.pdf'' =
        \<lparr>inputType = IT_url, contentType = CT_pdf, dvalue = ''https://a.com/x.pdf''\<rparr>"
    using detectInputType_url_general [of pf "''https://a.com/x.pdf''"]
    by (simp only: sample_url_pdf if_True)
next
  assume "validateUrl pf ''https://a.com/x.png?q=1''"
  then show "detectInputType pf ''https://a.com/x.png?q=1'' =
        \<lparr>inputType = IT_url, contentType = CT_image, dvalue = ''https://a.com/x.png?q=1''\<rparr>"
    using detectInputType_url_general [of pf "''https://a.com/x.png?q=1''"]
    by (simp only: sample_url_png if_True if_False)
next
  assume "validateUrl pf ''https://a.com/x''"
  then show "detectInputType pf ''https://a.com/x'' =
        \<lparr>inputType = IT_url, contentType = CT_unknown, dvalue = ''https://a.com/x''\<rparr>"
    using detectInputType_url_general [of pf "''https://a.com/x''"]
    by (simp only: sample_url_plain if_True if_False)
qed

lemma any_https_platform:
  "validateUrl \<lparr>zod_string_url = (\<lambda>s. True), new_URL_protocol = (\<lambda>s. Some ''https:'')\<rparr> s"
  by (simp add: validateUrl_def urlSchema_def)

lemma sample_url_upper:
  "trim '' HTTPS://A.COM/SCAN.JPEG '' = ''HTTPS://A.COM/SCAN.JPEG''"
  "\<not> url_ends_in (toLowerCase ''HTTPS://A.COM/SCAN.JPEG'') ''pdf''"
  "list_ex (url_ends_in (toLowerCase ''HTTPS://A.COM/SCAN.JPEG''))
     [''png'', ''jpg'', ''jpeg'', ''avif'', ''webp'', ''gif'']"
  by code_simp+

theorem detectInputType_url_witness:
  "detectInputType \<lparr>zod_string_url = (\<lambda>s. True), new_URL_protocol = (\<lambda>s. Some ''https:'')\<rparr>
     '' HTTPS://A.COM/SCAN.JPEG '' =
     \<lparr>inputType = IT_url, contentType = CT_image, dvalue = ''HTTPS://A.COM/SCAN.JPEG''\<rparr> \<and>
   detectInputType \<lparr>zod_string_url = (\<lambda>s. True), new_URL_protocol = (\<lambda>s. Some ''https:'')\<rparr>
     ''https://a.com/x.pdf'' =
     \<lparr>inputType = IT_url, contentType = CT_pdf, dvalue = ''https://a.com/x.pdf''\<rparr> \<and>
   detectInputType \<lparr>zod_string_url = (\<lambda>s. True), new_URL_protocol = (\<lambda>s. Some ''https:'')\<rparr>
     ''https://a.com/x.png?q=1'' =
     \<lparr>inputType = IT_url, contentType = CT_image, dvalue = ''https://a.com/x.png?q=1''\<rparr> \<and>
   detectInputType \<lparr>zod_string_url = (\<lambda>s. True), new_URL_protocol = (\<lambda>s. Some ''https:'')\<rparr>
     ''https://a.com/x'' =
     \<lparr>inputType = IT_url, contentType = CT_unknown, dvalue = ''https://a.com/x''\<rparr>"
  using detectInputType_url
    [of "\<lparr>zod_string_url = (\<lambda>s. True), new_URL_protocol = (\<lambda>s. Some ''https:'')\<rparr>"
        "'' HTTPS://A.COM/SCAN.JPEG ''"]
  by (simp only: any_https_platform sample_url_upper if_True if_False simp_thms)

text \<open>Where both clauses apply the first one decides: the URL below has an image
  extension before its query string and ends in \<open>.pdf\<close>, and is a PDF.\<close>

lemma detectInputType_url_pdf_first:
  "url_ends_in (toLowerCase ''https://a.com/x.png?f=y.pdf'') ''pdf'' \<and>
   url_ends_in (toLowerCase ''https://a.com/x.png?f=y.pdf'') ''png'' \<and>
   contentType
     (detectInputType \<lparr>zod_string_url = (\<lambda>s. True), new_URL_protocol = (\<lambda>s. Some ''https:'')\<rparr>
        ''https://a.com/x.png?f=y.pdf'') = CT_pdf"
  by code_simp

section \<open>Properties of the multi-URL detector\<close>

lemma skip_unit_partition:
  "skip_unit c (ps, rest) = (ps', rest') \<Longrightarrow>
   concat (map (\<lambda>(g, m). g @ m) ps') @ rest' = c # concat (map (\<lambda>(g, m). g @ m) ps) @ rest"
  by (cases ps) auto

lemma scan_all_partition:
  "scan_all ic r st = (ps, rest) \<Longrightarrow> concat (map (\<lambda>(g, m). g @ m) ps) @ rest = snd st"
proof (induction ic r st arbitrary: ps rest rule: scan_all.induct)
  case (1 ic r st)
  show ?case
  proof (cases "exec_from ic r st")
    case None
    with "1.prems" show ?thesis by (simp add: scan_all.simps [of ic r st])
  next
    case (Some x)
    then obtain g m st' where x: "exec_from ic r st = Some (g, m, st')"
      by (cases x) auto
    have split: "snd st = g @ m @ snd st'"
      using x by (rule exec_from_split)
    show ?thesis
    proof (cases "m = []")
      case False
      obtain ps1 rest1 where s1: "scan_all ic r st' = (ps1, rest1)"
        by (cases "scan_all ic r st'") auto
      have "concat (map (\<lambda>(g, m). g @ m) ps1) @ rest1 = snd st'"
        using "1.IH"(1) [OF x refl refl False s1] .
      moreover have "ps = (g, m) # ps1" "rest = rest1"
        using "1.prems" x False s1 by (simp_all add: scan_all.simps [of ic r st])
      ultimately show ?thesis using split by simp
    next
      case True
      show ?thesis
      proof (cases "snd st'")
        case Nil
        with "1.prems" x True split show ?thesis
          by (auto simp: scan_all.simps [of ic r st])
      next
        case (Cons c cs)
        obtain ps1 rest1 where s1: "scan_all ic r (Some c, cs) = (ps1, rest1)"
          by (cases "scan_all ic r (Some c, cs)") auto
        obtain ps2 rest2 where s2: "skip_unit c (ps1, rest1) = (ps2, rest2)"
          by (cases "skip_unit c (ps1, rest1)") auto
        have "concat (map (\<lambda>(g, m). g @ m) ps1) @ rest1 = cs"
          using "1.IH"(2) [OF x refl refl _ Cons s1] True by simp
        with skip_unit_partition [OF s2]
        have "concat (map (\<lambda>(g, m). g @ m) ps2) @ rest2 = c # cs" by simp
        moreover have "ps = (g, []) # ps2" "rest = rest2"
          using "1.prems" x True Cons s1 s2 by (simp_all add: scan_all.simps [of ic r st])
        ultimately show ?thesis using split True Cons by simp
      qed
    qed
  qed
qed

lemma match_replace_partition:
  "\<exists>ps rest. s = concat (map (\<lambda>(g, m). g @ m) ps) @ rest \<and>
     match_g ic r s = map snd ps \<and> replace_g ic r s = concat (map fst ps) @ rest"
proof -
  obtain ps rest where s: "scan_all ic r (None, s) = (ps, rest)"
    by (cases "scan_all ic r (None, s)") auto
  from scan_all_partition [OF s] have "s = concat (map (\<lambda>(g, m). g @ m) ps) @ rest" by simp
  moreover have "match_g ic r s = map snd ps" "replace_g ic r s = concat (map fst ps) @ rest"
    using s by (simp_all add: match_g_def replace_g_def)
  ultimately show ?thesis by blast
qed

lemma sample_two_urls:
  "hasMultipleUrls ''see http://a.com/x.pdf and http://b.com/y.png''"
  by code_simp

lemma sample_one_url:
  "\<not> hasMultipleUrls ''http://a.com/x.pdf''"
  by code_simp

text \<open>
  C9. \<open>hasMultipleUrls\<close> holds exactly when more than one match is counted over the three
  patterns, the pattern of \<open>www.\<close> domains on the input without the full URLs and the
  pattern of bare domains on what is left without the \<open>www.\<close> domains. The matches of a
  pattern do not overlap: the input is the matches, in order, each after the text skipped
  before it, and the text after the last one; the replacement is the skipped text alone.
  The two inputs of the specification give true and false.
\<close>

theorem hasMultipleUrls_counts:
  "hasMultipleUrls input =
     (1 < length (match_g True fullUrlPattern input) +
          length (match_g True wwwPattern (replace_g True fullUrlPattern input)) +
          length (match_g True domainPattern
                    (replace_g True wwwPattern (replace_g True fullUrlPattern input)))) \<and>
   (\<exists>ps rest. s = concat (map (\<lambda>(g, m). g @ m) ps) @ rest \<and>
      match_g ic r s = map snd ps \<and> replace_g ic r s = concat (map fst ps) @ rest) \<and>
   hasMultipleUrls ''see http://a.com/x.pdf and http://b.com/y.png'' = True \<and>
   hasMultipleUrls ''http://a.com/x.pdf'' = False"
  using match_replace_partition [of s ic r] sample_two_urls sample_one_url
  by (simp add: hasMultipleUrls_def Let_def)

lemma sample_mixed:
  "match_g True fullUrlPattern ''www.a.org/b, HTTP://c.io/d.png; x.de/e.gif'' = [''HTTP://c.io/d.png'']"
  "replace_g True fullUrlPattern ''www.a.org/b, HTTP://c.io/d.png; x.de/e.gif'' =
     ''www.a.org/b, ; x.de/e.gif''"
  "match_g True wwwPattern ''www.a.org/b, ; x.de/e.gif'' = [''www.a.org/b'']"
  "replace_g True wwwPattern ''www.a.org/b, ; x.de/e.gif'' = '', ; x.de/e.gif''"
  "match_g True domainPattern '', ; x.de/e.gif'' = [''x.de/e.gif'']"
  by code_simp+

theorem hasMultipleUrls_counts_witness:
  "hasMultipleUrls ''www.a.org/b, HTTP://c.io/d.png; x.de/e.gif'' \<and>
   match_g True fullUrlPattern ''www.a.org/b, HTTP://c.io/d.png; x.de/e.gif'' = [''HTTP://c.io/d.png''] \<and>
   match_g True wwwPattern ''www.a.org/b, ; x.de/e.gif'' = [''www.a.org/b''] \<and>
   match_g True domainPattern '', ; x.de/e.gif'' = [''x.de/e.gif'']"
  using hasMultipleUrls_counts [of "''www.a.org/b, HTTP://c.io/d.png; x.de/e.gif''" "[]" True Eps]
  by (simp only: sample_mixed) simp

section \<open>Properties of the cache-first request\<close>

text \<open>A sample run: a platform that takes every string for an https URL, a client that
  answers with one page, or rejects with \<open>503\<close>, and an empty cache.\<close>

lemma sample_api_key: "apiKeySchema ''0123456789''" "\<not> apiKeySchema ''short''"
  by code_simp+

lemma sample_pdf_url:
  "pdfUrlSchema \<lparr>zod_string_url = (\<lambda>s. True), new_URL_protocol = (\<lambda>s. Some ''https:'')\<rparr>
     ''https://a.com/x.pdf''"
  by code_simp

lemma sample_text:
  "extractText \<lparr>resp_pages = Some [\<lparr>markdown = ''Hello'', page_images = None\<rparr>]\<rparr> = ''Hello''"
  by code_simp

lemma sample_success:
  "mutationFn \<lparr>zod_string_url = (\<lambda>s. True), new_URL_protocol = (\<lambda>s. Some ''https:'')\<rparr>
     \<lparr>ocr_process = (\<lambda>req. Inr \<lparr>resp_pages = Some [\<lparr>markdown = ''Hello'', page_images = None\<rparr>]\<rparr>),
      elapsed = 120, readAsDataURL = (\<lambda>f. None)\<rparr>
     ''0123456789'' (UrlDocument ''https://a.com/x.pdf'') \<lparr>cache = Map.empty, requests = []\<rparr> =
   (Inr \<lparr>res_text = ''Hello'', res_pages = Some 1, res_processingTime = 120, res_images = []\<rparr>,
    \<lparr>cache = [ocrKeys_urlDocument ''https://a.com/x.pdf'' \<mapsto>
        \<lparr>res_text = ''Hello'', res_pages = Some 1, res_processingTime = 120, res_images = []\<rparr>],
     requests = [\<lparr>req_model = ''mistral-ocr-latest'',
                  req_document = DocumentUrlChunk ''https://a.com/x.pdf'',
                  includeImageBase64 = True\<rparr>]\<rparr>)"
  by (simp add: mutationFn_def service_switch_def processDocumentUrl_def ocr_call_def
      ocrResultSchema_def extractImages_def sample_api_key sample_pdf_url sample_text Let_def)

lemma sample_failure:
  "mutationFn \<lparr>zod_string_url = (\<lambda>s. True), new_URL_protocol = (\<lambda>s. Some ''https:'')\<rparr>
     \<lparr>ocr_process = (\<lambda>req. Inl ''503''), elapsed = 120, readAsDataURL = (\<lambda>f. None)\<rparr>
     ''0123456789'' (UrlDocument ''https://a.com/x.pdf'') \<lparr>cache = Map.empty, requests = []\<rparr> =
   (Inl (ExternalCallError ''503''),
    \<lparr>cache = Map.empty,
     requests = [\<lparr>req_model = ''mistral-ocr-latest'',
                  req_document = DocumentUrlChunk ''https://a.com/x.pdf'',
                  includeImageBase64 = True\<rparr>]\<rparr>)"
  by (simp add: mutationFn_def service_switch_def processDocumentUrl_def ocr_call_def
      sample_api_key sample_pdf_url Let_def)

text \<open>
  C1. When the cache holds a result under the key of the input, the request returns that
  result and leaves the state as it is: no request is sent to the external client.
\<close>

theorem mutationFn_cache_hit:
  "cache st (getCacheKey input) = Some r \<Longrightarrow> mutationFn pf env apiKey input st = (Inr r, st)"
  by (simp add: mutationFn_def)

theorem mutationFn_cache_hit_witness:
  "mutationFn \<lparr>zod_string_url = (\<lambda>s. True), new_URL_protocol = (\<lambda>s. Some ''https:'')\<rparr>
     \<lparr>ocr_process = (\<lambda>req. Inl ''503''), elapsed = 120, readAsDataURL = (\<lambda>f. None)\<rparr>
     ''short'' (UrlDocument ''https://a.com/x.pdf'')
     \<lparr>cache = [getCacheKey (UrlDocument ''https://a.com/x.pdf'') \<mapsto>
        \<lparr>res_text = ''Hello'', res_pages = Some 1, res_processingTime = 120, res_images = []\<rparr>],
      requests = []\<rparr> =
   (Inr \<lparr>res_text = ''Hello'', res_pages = Some 1, res_processingTime = 120, res_images = []\<rparr>,
    \<lparr>cache = [getCacheKey (UrlDocument ''https://a.com/x.pdf'') \<mapsto>
        \<lparr>res_text = ''Hello'', res_pages = Some 1, res_processingTime = 120, res_images = []\<rparr>],
      requests = []\<rparr>)"
  using mutationFn_cache_hit
    [of "\<lparr>cache = [getCacheKey (UrlDocument ''https://a.com/x.pdf'') \<mapsto>
        \<lparr>res_text = ''Hello'', res_pages = Some 1, res_processingTime = 120, res_images = []\<rparr>],
      requests = []\<rparr>" "UrlDocument ''https://a.com/x.pdf''"
      "\<lparr>res_text = ''Hello'', res_pages = Some 1, res_processingTime = 120, res_images = []\<rparr>"]
  by simp

text \<open>What a call of the service does: it leaves the state alone and fails, or it sends one
  request, and then fails with the client's error, fails on the result schema, or returns
  the normalised result.\<close>

lemma ocr_call_cases:
  assumes "ocr_call env doc st = (out, st')"
  shows "\<exists>req. requests st' = requests st @ [req] \<and> cache st' = cache st \<and>
    ((\<exists>e. ocr_process env req = Inl e \<and> out = Inl (ExternalCallError e)) \<or>
     (\<exists>response. ocr_process env req = Inr response \<and>
        (out = Inl ZodError \<or> (\<exists>result. out = Inr result \<and> ocrResultSchema result \<and>
           res_text result = extractText response))))"
  using assms
  by (auto simp: ocr_call_def Let_def split: sum.splits if_splits)

lemma service_switch_cases:
  assumes "service_switch pf env input st = (out, st')"
  shows "(st' = st \<and> (\<exists>err. out = Inl err)) \<or> (\<exists>doc. ocr_call env doc st = (out, st'))"
  using assms
  by (auto simp: service_switch_def processDocumentUrl_def processImageUrl_def
      processBase64Document_def processBase64Image_def Let_def
      split: OCRInputType.splits sum.splits option.splits if_splits)

lemma mutationFn_miss:
  "cache st (getCacheKey input) = None \<Longrightarrow>
   mutationFn pf env apiKey input st =
     (if \<not> apiKeySchema apiKey then (Inl ZodError, st)
      else (case service_switch pf env input st of
              (Inl e, st') \<Rightarrow> (Inl e, st')
            | (Inr result, st') \<Rightarrow>
                (Inr result, st'\<lparr>cache := (cache st')(getCacheKey input \<mapsto> result)\<rparr>)))"
  by (simp add: mutationFn_def Let_def)

text \<open>
  C2 (as amended). When the cache holds nothing under the key of the input and the request
  returns a result, exactly one request was sent to the external client, which answered
  it; the result is stored under the key and is the result returned.
\<close>

theorem mutationFn_cache_miss_success:
  assumes "cache st (getCacheKey input) = None"
    and "mutationFn pf env apiKey input st = (Inr result, st')"
  shows "(\<exists>req response. requests st' = requests st @ [req] \<and>
            ocr_process env req = Inr response \<and> res_text result = extractText response) \<and>
         cache st' = (cache st)(getCacheKey input \<mapsto> result) \<and>
         cache st' (getCacheKey input) = Some result"
proof -
  obtain out1 st1 where s: "service_switch pf env input st = (out1, st1)"
    by (cases "service_switch pf env input st") auto
  from assms s have k: "apiKeySchema apiKey" and out1: "out1 = Inr result"
    and st': "st' = st1\<lparr>cache := (cache st1)(getCacheKey input \<mapsto> result)\<rparr>"
    by (auto simp: mutationFn_miss split: if_splits sum.splits)
  from service_switch_cases [OF s] out1 obtain doc where "ocr_call env doc st = (Inr result, st1)"
    by auto
  from ocr_call_cases [OF this] obtain req response where
    "requests st1 = requests st @ [req]" "cache st1 = cache st"
    "ocr_process env req = Inr response" "res_text result = extractText response"
    by auto
  with st' show ?thesis by auto
qed

theorem mutationFn_cache_miss_success_witness:
  "cache (snd (mutationFn \<lparr>zod_string_url = (\<lambda>s. True), new_URL_protocol = (\<lambda>s. Some ''https:'')\<rparr>
     \<lparr>ocr_process = (\<lambda>req. Inr \<lparr>resp_pages = Some [\<lparr>markdown = ''Hello'', page_images = None\<rparr>]\<rparr>),
      elapsed = 120, readAsDataURL = (\<lambda>f. None)\<rparr>
     ''0123456789'' (UrlDocument ''https://a.com/x.pdf'') \<lparr>cache = Map.empty, requests = []\<rparr>))
     (getCacheKey (UrlDocument ''https://a.com/x.pdf'')) =
   Some \<lparr>res_text = ''Hello'', res_pages = Some 1, res_processingTime = 120, res_images = []\<rparr> \<and>
   fst (mutationFn \<lparr>zod_string_url = (\<lambda>s. True), new_URL_protocol = (\<lambda>s. Some ''https:'')\<rparr>
     \<lparr>ocr_process = (\<lambda>req. Inr \<lparr>resp_pages = Some [\<lparr>markdown = ''Hello'', page_images = None\<rparr>]\<rparr>),
      elapsed = 120, readAsDataURL = (\<lambda>f. None)\<rparr>
     ''0123456789'' (UrlDocument ''https://a.com/x.pdf'') \<lparr>cache = Map.empty, requests = []\<rparr>) =
   Inr \<lparr>res_text = ''Hello'', res_pages = Some 1, res_processingTime = 120, res_images = []\<rparr> \<and>
   length (requests (snd (mutationFn \<lparr>zod_string_url = (\<lambda>s. True), new_URL_protocol = (\<lambda>s. Some ''https:'')\<rparr>
     \<lparr>ocr_process = (\<lambda>req. Inr \<lparr>resp_pages = Some [\<lparr>markdown = ''Hello'', page_images = None\<rparr>]\<rparr>),
      elapsed = 120, readAsDataURL = (\<lambda>f. None)\<rparr>
     ''0123456789'' (UrlDocument ''https://a.com/x.pdf'') \<lparr>cache = Map.empty, requests = []\<rparr>))) = 1"
  using mutationFn_cache_miss_success [OF _ sample_success]
  by (simp add: sample_success)

text \<open>The claim as stated, for every input without a cache entry: with an API key of five
  characters the request fails on \<open>apiKeySchema\<close> before any call, sends nothing and stores
  nothing.\<close>

theorem mutationFn_invalid_key_counterexample:
  "cache \<lparr>cache = Map.empty, requests = []\<rparr> (getCacheKey (UrlDocument ''https://a.com/x.pdf'')) = None \<and>
   mutationFn \<lparr>zod_string_url = (\<lambda>s. True), new_URL_protocol = (\<lambda>s. Some ''https:'')\<rparr>
     \<lparr>ocr_process = (\<lambda>req. Inr \<lparr>resp_pages = Some [\<lparr>markdown = ''Hello'', page_images = None\<rparr>]\<rparr>),
      elapsed = 120, readAsDataURL = (\<lambda>f. None)\<rparr>
     ''short'' (UrlDocument ''https://a.com/x.pdf'') \<lparr>cache = Map.empty, requests = []\<rparr> =
   (Inl ZodError, \<lparr>cache = Map.empty, requests = []\<rparr>)"
  by (simp add: mutationFn_def sample_api_key)

text \<open>
  C3. When the request sent an external call and the client rejected it, the request fails
  with the client's error and the cache is what it was.
\<close>

theorem mutationFn_external_failure:
  assumes "mutationFn pf env apiKey input st = (out, st')"
    and "requests st' = requests st @ [req]" and "ocr_process env req = Inl e"
  shows "out = Inl (ExternalCallError e) \<and> cache st' = cache st"
proof (cases "cache st (getCacheKey input)")
  case (Some r)
  with assms(1) have "st' = st" by (simp add: mutationFn_def)
  with assms(2) show ?thesis by simp
next
  case None
  obtain out1 st1 where s: "service_switch pf env input st = (out1, st1)"
    by (cases "service_switch pf env input st") auto
  show ?thesis
  proof (cases "apiKeySchema apiKey")
    case False
    with None assms(1) have "st' = st" by (simp add: mutationFn_miss)
    with assms(2) show ?thesis by simp
  next
    case True
    from service_switch_cases [OF s] show ?thesis
    proof
      assume "st1 = st \<and> (\<exists>err. out1 = Inl err)"
      with None True assms(1) s have "st' = st" by (auto simp: mutationFn_miss)
      with assms(2) show ?thesis by simp
    next
      assume "\<exists>doc. ocr_call env doc st = (out1, st1)"
      then obtain doc where "ocr_call env doc st = (out1, st1)" by blast
      from ocr_call_cases [OF this] obtain req1 where r1: "requests st1 = requests st @ [req1]"
        "cache st1 = cache st"
        "(\<exists>e. ocr_process env req1 = Inl e \<and> out1 = Inl (ExternalCallError e)) \<or>
         (\<exists>response. ocr_process env req1 = Inr response \<and>
            (out1 = Inl ZodError \<or> (\<exists>result. out1 = Inr result \<and> ocrResultSchema result \<and>
               res_text result = extractText response)))"
        by blast
      have "requests st' = requests st1"
        using None True assms(1) s by (auto simp: mutationFn_miss split: sum.splits)
      with assms(2) r1(1) have "req1 = req" by simp
      with r1(3) assms(3) have out1: "out1 = Inl (ExternalCallError e)" by auto
      with None True assms(1) s have "out = Inl (ExternalCallError e)" "st' = st1"
        by (auto simp: mutationFn_miss)
      with r1(2) show ?thesis by simp
    qed
  qed
qed

theorem mutationFn_external_failure_witness:
  "fst (mutationFn \<lparr>zod_string_url = (\<lambda>s. True), new_URL_protocol = (\<lambda>s. Some ''https:'')\<rparr>
     \<lparr>ocr_process = (\<lambda>req. Inl ''503''), elapsed = 120, readAsDataURL = (\<lambda>f. None)\<rparr>
     ''0123456789'' (UrlDocument ''https://a.com/x.pdf'') \<lparr>cache = Map.empty, requests = []\<rparr>) =
   Inl (ExternalCallError ''503'') \<and>
   cache (snd (mutationFn \<lparr>zod_string_url = (\<lambda>s. True), new_URL_protocol = (\<lambda>s. Some ''https:'')\<rparr>
     \<lparr>ocr_process = (\<lambda>req. Inl ''503''), elapsed = 120, readAsDataURL = (\<lambda>f. None)\<rparr>
     ''0123456789'' (UrlDocument ''https://a.com/x.pdf'') \<lparr>cache = Map.empty, requests = []\<rparr>)) =
   Map.empty"
  using mutationFn_external_failure [OF sample_failure, of _ "''503''"]
  by (simp add: sample_failure)

end
